theory Spec2Isabelle
  imports Complex_Main "HOL-Library.Sublist"
begin


section \<open>The scheduler (backend/scheduler.py)\<close>

text \<open>
  The module keeps two global tables, \<open>failure_counts\<close> (a \<open>defaultdict(int)\<close>, so a
  total function with default 0) and \<open>last_success\<close> (a dict). Everything else the
  scheduler does to the outside is a call of \<open>time.sleep\<close>, one run of a city's scraper,
  or a mail handed to the SendGrid client; the model keeps these as lists in the state, in
  the order the calls are made.
\<close>

datatype event = Attempt string int | Sleep int

record sched =
  failure_counts :: "string \<Rightarrow> int"
  last_success :: "string \<rightharpoonup> string"
  trace :: "event list"
  alerts :: "(string \<times> string \<times> int) list"

text \<open>What the dispatch block of one attempt produces: the list \<open>scraper.run()\<close> returned,
  or the exception that the import, the constructor or the run raised.\<close>

datatype 'p outcome = Returned "'p list" | Raised string

definition CITIES :: "(string \<times> int) list" where
  "CITIES = [(''nashville'', 3), (''chattanooga'', 2), (''austin'', 3), (''sanantonio'', 2),
             (''houston'', 3), (''charlotte'', 3), (''phoenix'', 3)]"

definition initial_sched :: sched where
  "initial_sched = \<lparr>failure_counts = (\<lambda>_. 0), last_success = Map.empty, trace = [], alerts = []\<rparr>"

text \<open>\<open>send_alert_email\<close>: returns at once unless the count is a multiple of 3; otherwise
  the mail is built and handed to the client (a delivery error is caught and logged).\<close>

definition send_alert_email :: "string \<Rightarrow> string \<Rightarrow> int \<Rightarrow> sched \<Rightarrow> sched" where
  "send_alert_email city error failure_count st =
     (if failure_count mod 3 \<noteq> 0 then st
      else st\<lparr>alerts := alerts st @ [(city, error, failure_count)]\<rparr>)"

text \<open>The cities the \<open>if\<close>/\<open>elif\<close> chain of \<open>run_scraper\<close> knows.\<close>

definition configured :: "string list" where
  "configured = [''nashville'', ''chattanooga'', ''austin'', ''sanantonio'', ''houston'',
                 ''charlotte'', ''phoenix'']"

definition retry_wait :: "string \<Rightarrow> int \<Rightarrow> sched \<Rightarrow> sched" where
  "retry_wait city attempt st = st\<lparr>trace := trace st @ [Sleep (5 * (attempt + 1))]\<rparr>"

definition give_up :: "string \<Rightarrow> string \<Rightarrow> sched \<Rightarrow> sched" where
  "give_up city error st =
     (let st' = st\<lparr>failure_counts := (failure_counts st)(city := failure_counts st city + 1)\<rparr>
      in send_alert_email city error (failure_counts st' city) st')"

text \<open>The body of \<open>for attempt in range(max_retries + 1)\<close>, over the attempts still to
  make. \<open>scrape city attempt\<close> is the outcome of the city's scraper at that attempt and
  \<open>now\<close> is what \<open>time.ctime()\<close> reads.\<close>

fun run_attempts ::
  "(string \<Rightarrow> int \<Rightarrow> 'p outcome) \<Rightarrow> string \<Rightarrow> string \<Rightarrow> int \<Rightarrow> int list \<Rightarrow> sched \<Rightarrow> bool \<times> sched"
where
  "run_attempts scrape now city max_retries [] st = (False, st)"
| "run_attempts scrape now city max_retries (attempt # rest) st =
     (if city \<notin> set configured then (False, st)
      else
        let st1 = st\<lparr>trace := trace st @ [Attempt city attempt]\<rparr> in
        case scrape city attempt of
          Returned permits \<Rightarrow>
            if permits \<noteq> [] then
              (True, st1\<lparr>failure_counts := (failure_counts st1)(city := 0),
                         last_success := (last_success st1)(city \<mapsto> now)\<rparr>)
            else if attempt < max_retries then
              run_attempts scrape now city max_retries rest (retry_wait city attempt st1)
            else (False, give_up city ''No permits returned after retries'' st1)
        | Raised e \<Rightarrow>
            if attempt < max_retries then
              run_attempts scrape now city max_retries rest (retry_wait city attempt st1)
            else (False, give_up city e st1))"

definition run_scraper ::
  "(string \<Rightarrow> int \<Rightarrow> 'p outcome) \<Rightarrow> string \<Rightarrow> string \<Rightarrow> int \<Rightarrow> sched \<Rightarrow> bool \<times> sched"
where
  "run_scraper scrape now city max_retries st =
     run_attempts scrape now city max_retries [0..max_retries] st"

text \<open>\<open>get_next_city\<close>: the weighted pool, in the order of \<open>CITIES.items()\<close>, and the
  element \<open>random.choice\<close> takes; \<open>r\<close> is the index the random source draws. On an empty
  pool \<open>random.choice\<close> raises \<open>IndexError\<close>.\<close>

definition failure_penalty :: "int \<Rightarrow> int" where
  "failure_penalty failures = max 1 (5 - failures)"

definition weight :: "int \<Rightarrow> int \<Rightarrow> int" where
  "weight priority failures = priority * failure_penalty failures"

fun weighted_cities :: "(string \<times> int) list \<Rightarrow> (string \<Rightarrow> int) \<Rightarrow> string list" where
  "weighted_cities [] fc = []"
| "weighted_cities ((city, priority) # items) fc =
     replicate (nat (weight priority (fc city))) city @ weighted_cities items fc"

datatype py_error = IndexError | AttributeError

definition get_next_city :: "(string \<times> int) list \<Rightarrow> (string \<Rightarrow> int) \<Rightarrow> nat \<Rightarrow> py_error + string" where
  "get_next_city cities fc r =
     (let pool = weighted_cities cities fc
      in if pool = [] then Inl IndexError else Inr (pool ! (r mod length pool)))"


section \<open>The routing table (city_routing.py, auto_recovery.py)\<close>

record routing_entry =
  route_to :: string
  reason :: string
  fallback_count :: int

definition CITY_ROUTING :: "string \<rightharpoonup> routing_entry" where
  "CITY_ROUTING = map_of
     [(''houston'', \<lparr>route_to = ''chicago'',
         reason = ''Houston ArcGIS API returns 403 Forbidden'', fallback_count = 5891\<rparr>),
      (''charlotte'', \<lparr>route_to = ''raleigh'',
         reason = ''Charlotte ArcGIS API returns empty JSON responses'', fallback_count = 363\<rparr>),
      (''phoenix'', \<lparr>route_to = ''philadelphia'',
         reason = ''Phoenix ArcGIS API returns no data'', fallback_count = 5921\<rparr>)]"

record log_entry =
  le_timestamp :: string
  le_city :: string
  le_action :: string
  le_details :: string

text \<open>The \<open>AutoRecovery\<close> object: its in-memory log and the lines appended to
  \<open>logs/recovery.log\<close>.\<close>

record auto_recovery =
  routing_config :: "string \<rightharpoonup> routing_entry"
  recovery_log :: "log_entry list"
  log_file :: "string list"

definition log_recovery_action ::
  "string \<Rightarrow> string \<Rightarrow> string \<Rightarrow> string \<Rightarrow> auto_recovery \<Rightarrow> auto_recovery" where
  "log_recovery_action timestamp city action_type details ar =
     ar\<lparr>recovery_log := recovery_log ar @
           [\<lparr>le_timestamp = timestamp, le_city = city, le_action = action_type,
             le_details = details\<rparr>],
        log_file := log_file ar @
           [timestamp @ '' | '' @ city @ '' | '' @ action_type @ '' | '' @ details]\<rparr>"

text \<open>\<open>execute_routing\<close> returns the substitute's name, or \<open>None\<close> when the city has no
  entry; \<open>timestamp\<close> is what \<open>datetime.now().isoformat()\<close> reads.\<close>

definition execute_routing :: "string \<Rightarrow> string \<Rightarrow> auto_recovery \<Rightarrow> string option \<times> auto_recovery" where
  "execute_routing timestamp city ar =
     (case routing_config ar city of
        Some entry \<Rightarrow>
          (Some (route_to entry),
           log_recovery_action timestamp city ''ROUTING_EXECUTED''
             (city @ '' -> '' @ route_to entry) ar)
      | None \<Rightarrow> (None, ar))"

definition new_auto_recovery :: auto_recovery where
  "new_auto_recovery = \<lparr>routing_config = CITY_ROUTING, recovery_log = [], log_file = []\<rparr>"


section \<open>Vocabulary for the statements about the scheduler\<close>

text \<open>An attempt has failed when the scraper returned no permits or raised; the reason the
  scheduler then gives to the alert is the fixed text or the exception's message.\<close>

fun failed :: "'p outcome \<Rightarrow> bool" where
  "failed (Returned permits) = (permits = [])"
| "failed (Raised e) = True"

fun failure_reason :: "'p outcome \<Rightarrow> string" where
  "failure_reason (Returned permits) = ''No permits returned after retries''"
| "failure_reason (Raised e) = e"

text \<open>The calls made from attempt \<open>a\<close> up to attempt \<open>k\<close> when all attempts before \<open>k\<close>
  fail: each failing attempt \<open>i\<close> is followed by a sleep of \<open>5 * (i + 1)\<close> seconds.\<close>

definition attempt_events :: "string \<Rightarrow> int \<Rightarrow> int \<Rightarrow> event list" where
  "attempt_events city a k =
     concat (map (\<lambda>i. [Attempt city i, Sleep (5 * (i + 1))]) [a..k - 1]) @ [Attempt city k]"


text \<open>\<open>n\<close> cycles of the main loop that all select the same city, against the same scraper
  behaviour.\<close>

fun run_cycles ::
  "(string \<Rightarrow> int \<Rightarrow> 'p outcome) \<Rightarrow> string \<Rightarrow> string \<Rightarrow> int \<Rightarrow> nat \<Rightarrow> sched \<Rightarrow> sched" where
  "run_cycles scrape now city max_retries 0 st = st"
| "run_cycles scrape now city max_retries (Suc n) st =
     snd (run_scraper scrape now city max_retries (run_cycles scrape now city max_retries n st))"

text \<open>Three worlds: only Raleigh's scraper finds permits (50 of them at every attempt), no
  scraper finds any, and only Charlotte's scraper finds 50.\<close>

fun raleigh_only :: "string \<Rightarrow> int \<Rightarrow> nat outcome" where
  "raleigh_only city attempt =
     (if city = ''raleigh'' then Returned (replicate 50 0) else Returned [])"

fun nothing_found :: "string \<Rightarrow> int \<Rightarrow> nat outcome" where
  "nothing_found city attempt = Returned []"

fun charlotte_finds_50 :: "string \<Rightarrow> int \<Rightarrow> nat outcome" where
  "charlotte_finds_50 city attempt =
     (if city = ''charlotte'' then Returned (replicate 50 0) else Returned [])"




section \<open>The Charlotte scraper (backend/scrapers/charlotte.py)\<close>

text \<open>
  A raw record is a JSON object, a dict from field names to values. The fields the scraper
  reads hold JSON scalars: \<open>null\<close> (Python's \<open>None\<close>), a string or a number. Python's \<open>==\<close> on
  these is equality of the values, with \<open>1 == 1.0\<close>, so numbers are kept as reals.
\<close>

datatype jv = JNull | JStr string | JNum real

type_synonym raw = "string \<rightharpoonup> jv"

text \<open>
  The functions of Python's library that the scraper calls, as parameters:
  \<open>float\<close> on a string and on a number (\<open>None\<close> when it raises), \<open>str\<close> on a number,
  \<open>datetime.fromisoformat\<close>, \<open>datetime.strptime(_, '%Y-%m-%d')\<close> (\<open>None\<close> when they raise),
  \<open>strftime('%Y-%m-%d')\<close>, \<open>str.strip\<close>, and the day of a timestamp in milliseconds,
  \<open>datetime.fromtimestamp(int(t) / 1000).strftime('%Y-%m-%d')\<close> (\<open>None\<close> when it raises);
  \<open>'d\<close> is the type of \<open>datetime\<close> values.
\<close>

record 'd builtins =
  float_of_str :: "string \<Rightarrow> real option"
  float_of_num :: "real \<Rightarrow> real option"
  str_of_num :: "real \<Rightarrow> string"
  fromisoformat :: "string \<Rightarrow> 'd option"
  strptime_ymd :: "string \<Rightarrow> 'd option"
  strftime_ymd :: "'d \<Rightarrow> string"
  strip :: "string \<Rightarrow> string"
  day_of_millis :: "real \<Rightarrow> string option"

fun truthy :: "jv \<Rightarrow> bool" where
  "truthy JNull = False"
| "truthy (JStr s) = (s \<noteq> [])"
| "truthy (JNum x) = (x \<noteq> 0)"

text \<open>\<open>a or b\<close>, \<open>record.get(key)\<close>, \<open>record.get(key, default)\<close> and \<open>str(v)\<close>.\<close>

definition py_or :: "jv \<Rightarrow> jv \<Rightarrow> jv" where
  "py_or a b = (if truthy a then a else b)"

definition get :: "raw \<Rightarrow> string \<Rightarrow> jv" where
  "get record key = (case record key of None \<Rightarrow> JNull | Some v \<Rightarrow> v)"

definition get_default :: "raw \<Rightarrow> string \<Rightarrow> jv \<Rightarrow> jv" where
  "get_default record key d = (case record key of None \<Rightarrow> d | Some v \<Rightarrow> v)"

fun py_str :: "'d builtins \<Rightarrow> jv \<Rightarrow> string" where
  "py_str B JNull = ''None''"
| "py_str B (JStr s) = s"
| "py_str B (JNum x) = str_of_num B x"

text \<open>\<open>s.replace(c, '')\<close> and \<open>s.replace(c, t)\<close> for a single character \<open>c\<close>.\<close>

definition remove_char :: "char \<Rightarrow> string \<Rightarrow> string" where
  "remove_char c s = filter (\<lambda>x. x \<noteq> c) s"

definition replace_char :: "char \<Rightarrow> string \<Rightarrow> string \<Rightarrow> string" where
  "replace_char c t s = concat (map (\<lambda>x. if x = c then t else [x]) s)"

text \<open>\<open>_parse_cost\<close>: 0 for a falsy value and whenever the conversion raises.\<close>

definition parse_cost :: "'d builtins \<Rightarrow> jv \<Rightarrow> real" where
  "parse_cost B v =
     (if \<not> truthy v then 0
      else case v of
             JNum x \<Rightarrow> (case float_of_num B x of Some f \<Rightarrow> f | None \<Rightarrow> 0)
           | _ \<Rightarrow> (case float_of_str B (remove_char CHR '','' (remove_char CHR ''$'' (py_str B v))) of
                     Some f \<Rightarrow> f
                   | None \<Rightarrow> 0))"

text \<open>\<open>_format_date\<close>: \<open>'N/A'\<close> for a falsy value and whenever the parse raises.\<close>

definition parse_date :: "'d builtins \<Rightarrow> string \<Rightarrow> 'd option" where
  "parse_date B s =
     (if CHR ''T'' \<in> set s then fromisoformat B (replace_char CHR ''Z'' ''+00:00'' s)
      else strptime_ymd B s)"

definition format_date :: "'d builtins \<Rightarrow> jv \<Rightarrow> string" where
  "format_date B date_str =
     (if \<not> truthy date_str then ''N/A''
      else case parse_date B (py_str B date_str) of
             Some dt \<Rightarrow> strftime_ymd B dt
           | None \<Rightarrow> ''N/A'')"

record permit =
  p_permit_number :: jv
  p_address :: jv
  p_type :: jv
  p_value :: real
  p_issued_date :: string
  p_status :: jv

datatype health_event = Record_success nat | Record_failure string

text \<open>The scraper object: \<open>self.permits\<close> and \<open>self.seen_permit_ids\<close>, with the permit lists
  handed to \<open>save_partial_results\<close> and the calls made on the health check.\<close>

record scraper =
  permits :: "permit list"
  seen_permit_ids :: "jv set"
  partial_saves :: "permit list list"
  health :: "health_event list"

definition new_scraper :: scraper where
  "new_scraper = \<lparr>permits = [], seen_permit_ids = {}, partial_saves = [], health = []\<rparr>"

definition permit_id_of :: "'d builtins \<Rightarrow> raw \<Rightarrow> jv" where
  "permit_id_of B record =
     py_or (get record ''permit_number'')
       (py_or (get record ''permit_id'')
          (JStr (py_str B (get_default record ''id'' (JStr '''')))))"

definition make_permit :: "'d builtins \<Rightarrow> jv \<Rightarrow> raw \<Rightarrow> permit" where
  "make_permit B permit_id record =
     \<lparr>p_permit_number = permit_id,
      p_address = py_or (get record ''address'') (JStr ''N/A''),
      p_type = py_or (get record ''permit_type'') (JStr ''N/A''),
      p_value = parse_cost B (py_or (get record ''cost'') (JNum 0)),
      p_issued_date = format_date B (get record ''issued_date''),
      p_status = py_or (get record ''status'') (JStr ''N/A'')\<rparr>"

text \<open>The body of \<open>for record in data\<close>, and the whole loop over one batch.\<close>

definition add_record :: "'d builtins \<Rightarrow> scraper \<Rightarrow> raw \<Rightarrow> scraper" where
  "add_record B s record =
     (let permit_id = permit_id_of B record in
      if permit_id \<notin> seen_permit_ids s then
        s\<lparr>seen_permit_ids := insert permit_id (seen_permit_ids s),
          permits := permits s @ [make_permit B permit_id record]\<rparr>
      else s)"

definition process_batch :: "'d builtins \<Rightarrow> scraper \<Rightarrow> raw list \<Rightarrow> scraper" where
  "process_batch B s data = foldl (add_record B) s data"

text \<open>What one call of the decorated \<open>_fetch_batch\<close> gives back, after the retries the
  decorator makes: the parsed JSON array, a \<open>requests.RequestException\<close> or another
  exception. The elements of the array are objects, so the loop over a batch does not
  raise.\<close>

datatype fetch_result = Data "raw list" | Request_exception | Other_exception

text \<open>Both \<open>except\<close> branches of the loop do the same: on the third consecutive failure the
  permits collected so far, if any, go to \<open>save_partial_results\<close>.\<close>

definition save_partial :: "scraper \<Rightarrow> scraper" where
  "save_partial s =
     (if permits s \<noteq> [] then s\<lparr>partial_saves := partial_saves s @ [permits s]\<rparr> else s)"

text \<open>
  The \<open>while total_fetched < max_permits\<close> loop. \<open>fetch k limit offset\<close> is the result of the
  \<open>k\<close>-th call of \<open>_fetch_batch\<close>, made with \<open>$limit = limit\<close> and \<open>$offset = offset\<close>;
  \<open>batch_size\<close> is 1000 and \<open>max_consecutive_failures\<close> is 3. The pauses between fetches
  and the log lines are left out; \<open>save_partial_results\<close> and the health check are taken
  to return normally.
\<close>

function scrape_loop ::
  "'d builtins \<Rightarrow> (nat \<Rightarrow> int \<Rightarrow> int \<Rightarrow> fetch_result) \<Rightarrow> int \<Rightarrow> nat \<Rightarrow> int \<Rightarrow> int \<Rightarrow> nat
     \<Rightarrow> scraper \<Rightarrow> scraper"
where
  "scrape_loop B fetch max_permits k offset total_fetched consecutive_failures s =
     (if total_fetched < max_permits then
        case fetch k (min 1000 (max_permits - total_fetched)) offset of
          Data data \<Rightarrow>
            if data = [] then s
            else
              let s' = process_batch B s data in
              if length data < 1000 then s'
              else scrape_loop B fetch max_permits (k + 1) (offset + 1000)
                     (total_fetched + int (length data)) 0 s'
        | Request_exception \<Rightarrow>
            if consecutive_failures + 1 \<ge> 3 then save_partial s
            else scrape_loop B fetch max_permits (k + 1) (offset + 1000) total_fetched
                   (consecutive_failures + 1) s
        | Other_exception \<Rightarrow>
            if consecutive_failures + 1 \<ge> 3 then save_partial s
            else scrape_loop B fetch max_permits (k + 1) (offset + 1000) total_fetched
                   (consecutive_failures + 1) s
      else s)"
  by pat_completeness auto
termination
  by (relation "measures
        [\<lambda>(B, fetch, max_permits, k, offset, total_fetched, consecutive_failures, s).
            nat (max_permits - total_fetched),
         \<lambda>(B, fetch, max_permits, k, offset, total_fetched, consecutive_failures, s).
            3 - consecutive_failures]")
     auto

text \<open>\<open>scrape_permits\<close>: the loop from offset 0, then the report to the health check; the
  value returned is \<open>self.permits\<close>.\<close>

definition scrape_permits ::
  "'d builtins \<Rightarrow> (nat \<Rightarrow> int \<Rightarrow> int \<Rightarrow> fetch_result) \<Rightarrow> int \<Rightarrow> scraper \<Rightarrow> permit list \<times> scraper"
where
  "scrape_permits B fetch max_permits s =
     (let s1 = scrape_loop B fetch max_permits 0 0 0 0 s;
          s2 = (if permits s1 \<noteq> []
                then s1\<lparr>health := health s1 @ [Record_success (length (permits s1))]\<rparr>
                else s1\<lparr>health := health s1 @ [Record_failure ''No permits retrieved'']\<rparr>)
      in (permits s2, s2))"



section \<open>The batch loop of the Dallas scraper (scrapers/dallas.py)\<close>

text \<open>A feature of the ArcGIS answer is an object whose \<open>attributes\<close> field holds the raw
  record; \<open>None\<close> stands for a feature without that field.\<close>

type_synonym feature = "raw option"

definition attributes :: "feature \<Rightarrow> raw" where
  "attributes feature = (case feature of None \<Rightarrow> Map.empty | Some attrs \<Rightarrow> attrs)"

definition dallas_parse_cost :: "'d builtins \<Rightarrow> jv \<Rightarrow> real" where
  "dallas_parse_cost B v =
     (if truthy v then
        case float_of_str B (remove_char CHR '','' (remove_char CHR ''$'' (py_str B v))) of
          Some f \<Rightarrow> f
        | None \<Rightarrow> 0
      else 0)"

definition dallas_format_date :: "'d builtins \<Rightarrow> jv \<Rightarrow> string" where
  "dallas_format_date B timestamp =
     (if \<not> truthy timestamp then ''N/A''
      else case timestamp of
             JNum t \<Rightarrow> (case day_of_millis B t of Some day \<Rightarrow> day | None \<Rightarrow> ''N/A'')
           | _ \<Rightarrow> take 10 (py_str B timestamp))"

definition dallas_permit_id :: "'d builtins \<Rightarrow> raw \<Rightarrow> string" where
  "dallas_permit_id B attrs = strip B (py_str B (get_default attrs ''PERMIT_No'' (JStr '''')))"

definition dallas_make_permit :: "'d builtins \<Rightarrow> string \<Rightarrow> raw \<Rightarrow> permit" where
  "dallas_make_permit B permit_id attrs =
     \<lparr>p_permit_number = JStr permit_id,
      p_address = get_default attrs ''ADDRESS'' (JStr ''N/A''),
      p_type = get_default attrs ''PERMIT_TYPE'' (JStr ''N/A''),
      p_value = dallas_parse_cost B (get_default attrs ''VALUE'' (JNum 0)),
      p_issued_date = dallas_format_date B (get attrs ''ISSUE_DATE''),
      p_status = get_default attrs ''Status'' (JStr ''N/A'')\<rparr>"

text \<open>The body of \<open>for feature in data['features']\<close> and the loop over one batch.\<close>

definition dallas_add_feature :: "'d builtins \<Rightarrow> scraper \<Rightarrow> feature \<Rightarrow> scraper" where
  "dallas_add_feature B s feature =
     (let attrs = attributes feature;
          permit_id = dallas_permit_id B attrs in
      if permit_id \<noteq> [] \<and> JStr permit_id \<notin> seen_permit_ids s then
        s\<lparr>seen_permit_ids := insert (JStr permit_id) (seen_permit_ids s),
          permits := permits s @ [dallas_make_permit B permit_id attrs]\<rparr>
      else s)"

definition dallas_process_batch :: "'d builtins \<Rightarrow> scraper \<Rightarrow> feature list \<Rightarrow> scraper" where
  "dallas_process_batch B s features = foldl (dallas_add_feature B) s features"


section \<open>Vocabulary for the statements about the scrapers\<close>

text \<open>The identifiers of a list of permits, and the invariant that ties the permit list of a
  scraper to its set of seen identifiers.\<close>

definition ids :: "permit list \<Rightarrow> jv list" where
  "ids ps = map p_permit_number ps"

definition ids_consistent :: "scraper \<Rightarrow> bool" where
  "ids_consistent s = (distinct (ids (permits s)) \<and> set (ids (permits s)) \<subseteq> seen_permit_ids s)"

text \<open>\<open>grown s s'\<close>: \<open>s'\<close> has the permits of \<open>s\<close> followed by new ones, whose identifiers are
  pairwise different, were not seen in \<open>s\<close>, and are exactly what the seen set gained.\<close>

definition grown :: "scraper \<Rightarrow> scraper \<Rightarrow> bool" where
  "grown s s' =
     (prefix (permits s) (permits s') \<and>
      distinct (ids (drop (length (permits s)) (permits s'))) \<and>
      set (ids (drop (length (permits s)) (permits s'))) \<inter> seen_permit_ids s = {} \<and>
      seen_permit_ids s' = seen_permit_ids s \<union> set (ids (drop (length (permits s)) (permits s'))))"

fun is_failure :: "fetch_result \<Rightarrow> bool" where
  "is_failure (Data data) = False"
| "is_failure Request_exception = True"
| "is_failure Other_exception = True"

text \<open>Stand-ins for the library functions, for evaluating the model on examples: dates are
  kept as their first ten characters, and only \<open>1500\<close> parses as a number.\<close>

definition demo_builtins :: "string builtins" where
  "demo_builtins =
     \<lparr>float_of_str = (\<lambda>s. if s = ''1500'' then Some 1500 else None),
      float_of_num = (\<lambda>x. Some x),
      str_of_num = (\<lambda>x. ''0''),
      fromisoformat = (\<lambda>s. if length s < 10 then None else Some (take 10 s)),
      strptime_ymd = (\<lambda>s. if length s = 10 then Some s else None),
      strftime_ymd = (\<lambda>d. d),
      strip = (\<lambda>s. s),
      day_of_millis = (\<lambda>t. None)\<rparr>"

text \<open>Two raw records and a world that serves two full batches of them and then fails.\<close>

definition record_a :: raw where
  "record_a = [''permit_number'' \<mapsto> JStr ''A-1'', ''cost'' \<mapsto> JStr ''$1,500'',
               ''issued_date'' \<mapsto> JStr ''2024-05-01T00:00:00.000'']"

definition record_b :: raw where
  "record_b = [''permit_id'' \<mapsto> JStr ''B-2'', ''status'' \<mapsto> JStr ''Issued'',
               ''cost'' \<mapsto> JStr ''n/a'', ''issued_date'' \<mapsto> JStr ''yesterday'']"

definition feature_d :: feature where
  "feature_d = Some [''PERMIT_No'' \<mapsto> JStr ''D-4'', ''VALUE'' \<mapsto> JNum 1500]"

fun two_batches_then_errors :: "nat \<Rightarrow> int \<Rightarrow> int \<Rightarrow> fetch_result" where
  "two_batches_then_errors k limit offset =
     (if k = 0 then Data (replicate 1000 record_a)
      else if k = 1 then Data (replicate 1000 record_b)
      else Request_exception)"

text \<open>The same two batches from a source that is then exhausted: the third fetch returns
  the empty array and the run ends normally.\<close>

fun two_batches_then_end :: "nat \<Rightarrow> int \<Rightarrow> int \<Rightarrow> fetch_result" where
  "two_batches_then_end k limit offset =
     (if k = 0 then Data (replicate 1000 record_a)
      else if k = 1 then Data (replicate 1000 record_b)
      else Data [])"

fun one_short_batch :: "nat \<Rightarrow> int \<Rightarrow> int \<Rightarrow> fetch_result" where
  "one_short_batch k limit offset = Data [record_a, record_b, record_a]"

fun another_short_batch :: "nat \<Rightarrow> int \<Rightarrow> int \<Rightarrow> fetch_result" where
  "another_short_batch k limit offset = Data [record_b, Map.empty]"



section \<open>The inline retry loop of the Snohomish scraper (backend/scrapers/snohomish.py)\<close>

text \<open>
  A table row is the list of the stripped texts of its \<open>td\<close> cells. One attempt either
  raises a \<open>requests\<close> exception, raises another exception, or yields the parsed page, which
  answers \<open>soup.select\<close> for each selector.
\<close>

type_synonym row = "string list"

datatype attempt_result = Request_error | Unexpected_error | Page "string \<Rightarrow> row list"

datatype lead_value = Text string | Number real

record lead =
  l_permit_number :: string
  l_address :: string
  l_permit_type :: string
  l_permit_value :: lead_value
  l_issue_date :: string
  l_owner :: string
  l_status :: string

datatype call = Get int | Wait real

text \<open>\<open>str.lower\<close> on ASCII letters. Only ASCII capitals have one of the letters of
  \<open>snohomish\<close> as their lower case, so the comparison below is the one Python makes.\<close>

definition lower_char :: "char \<Rightarrow> char" where
  "lower_char c =
     (case map_of (zip ''ABCDEFGHIJKLMNOPQRSTUVWXYZ'' ''abcdefghijklmnopqrstuvwxyz'') c of
        Some l \<Rightarrow> l
      | None \<Rightarrow> c)"

definition lower :: "string \<Rightarrow> string" where
  "lower s = map lower_char s"

text \<open>The loop over \<open>table_selectors\<close>: the first selector that finds more than one row
  wins, otherwise the rows of the last one remain.\<close>

definition select_rows :: "(string \<Rightarrow> row list) \<Rightarrow> row list" where
  "select_rows soup =
     (if length (soup ''table#permitGrid tr'') > 1 then soup ''table#permitGrid tr''
      else if length (soup ''table tr'') > 1 then soup ''table tr''
      else soup ''table.permitTable tr'')"

definition clean_value :: "'d builtins \<Rightarrow> string \<Rightarrow> lead_value" where
  "clean_value B v =
     (if v \<noteq> [] then
        case float_of_str B (strip B (remove_char CHR '','' (remove_char CHR ''$'' v))) of
          Some f \<Rightarrow> Number f
        | None \<Rightarrow> Number 0
      else Text v)"

definition parse_row :: "'d builtins \<Rightarrow> row \<Rightarrow> lead list" where
  "parse_row B cols =
     (if length cols \<ge> 5 then
        [\<lparr>l_permit_number = cols ! 0,
          l_address = cols ! 1,
          l_permit_type = cols ! 3,
          l_permit_value = clean_value B (if length cols > 5 then cols ! 5 else ''''),
          l_issue_date = cols ! 4,
          l_owner = cols ! 2,
          l_status = ''issued''\<rparr>]
      else [])"

text \<open>
  The body of \<open>for attempt in range(max_retries)\<close>, over the attempts still to make.
  \<open>fetch attempt\<close> is what the request and the parse of that attempt give, and \<open>jitter attempt\<close>
  is the value \<open>random.uniform(1, 3)\<close> draws for the sleep after it. The list \<open>leads\<close> is
  still empty whenever an attempt fails, so the loop returns \<open>[]\<close> when it gives up.
\<close>

fun retry_loop ::
  "'d builtins \<Rightarrow> (int \<Rightarrow> attempt_result) \<Rightarrow> (int \<Rightarrow> real) \<Rightarrow> int \<Rightarrow> int list \<Rightarrow> call list
     \<Rightarrow> lead list \<times> call list"
where
  "retry_loop B fetch jitter max_retries [] calls = ([], calls)"
| "retry_loop B fetch jitter max_retries (attempt # rest) calls =
     (let calls1 = calls @ [Get attempt];
          backoff = Wait (jitter attempt * 2 ^ nat attempt) in
      case fetch attempt of
        Page soup \<Rightarrow>
          let rows = select_rows soup in
          if length rows \<le> 1 then
            if attempt < max_retries - 1 then
              retry_loop B fetch jitter max_retries rest (calls1 @ [backoff])
            else ([], calls1)
          else (concat (map (parse_row B) (tl rows)), calls1)
      | Request_error \<Rightarrow>
          if attempt < max_retries - 1 then
            retry_loop B fetch jitter max_retries rest (calls1 @ [backoff])
          else retry_loop B fetch jitter max_retries rest calls1
      | Unexpected_error \<Rightarrow>
          if attempt < max_retries - 1 then
            retry_loop B fetch jitter max_retries rest (calls1 @ [backoff])
          else retry_loop B fetch jitter max_retries rest calls1)"

definition get_leads_for_city ::
  "'d builtins \<Rightarrow> (int \<Rightarrow> attempt_result) \<Rightarrow> (int \<Rightarrow> real) \<Rightarrow> string \<Rightarrow> lead list \<times> call list"
where
  "get_leads_for_city B fetch jitter city_name =
     (if lower city_name \<noteq> ''snohomish'' then ([], [])
      else retry_loop B fetch jitter 3 [0..3 - 1] [])"

text \<open>Vocabulary: an attempt that finds no table rows or raises; the calls of a run in
  which every attempt up to \<open>k\<close> fails; worlds for the examples.\<close>

fun no_rows :: "attempt_result \<Rightarrow> bool" where
  "no_rows (Page soup) = (length (select_rows soup) \<le> 1)"
| "no_rows Request_error = True"
| "no_rows Unexpected_error = True"

definition failing_calls :: "(int \<Rightarrow> real) \<Rightarrow> int \<Rightarrow> int \<Rightarrow> call list" where
  "failing_calls jitter a k =
     concat (map (\<lambda>i. [Get i, Wait (jitter i * 2 ^ nat i)]) [a..k - 1]) @ [Get k]"

fun is_get :: "call \<Rightarrow> bool" where
  "is_get (Get i) = True"
| "is_get (Wait t) = False"

fun always_request_error :: "int \<Rightarrow> attempt_result" where
  "always_request_error attempt = Request_error"

fun always_unexpected_error :: "int \<Rightarrow> attempt_result" where
  "always_unexpected_error attempt = Unexpected_error"

fun unit_jitter :: "int \<Rightarrow> real" where
  "unit_jitter attempt = 1"

fun falling_jitter :: "int \<Rightarrow> real" where
  "falling_jitter attempt = (if attempt = 0 then 3 else 1)"



section \<open>The Milwaukee scraper (scrapers/milwaukee.py)\<close>

record milwaukee_permit =
  m_permit_number :: jv
  m_address :: jv
  m_permit_type :: jv
  m_description :: string
  m_date :: string
  m_city :: string

record milwaukee_scraper =
  m_permits :: "milwaukee_permit list"
  m_seen_permit_ids :: "jv set"

definition new_milwaukee_scraper :: milwaukee_scraper where
  "new_milwaukee_scraper = \<lparr>m_permits = [], m_seen_permit_ids = {}\<rparr>"

text \<open>The dict built for a record. \<open>issue_date.split('T')\<close> raises \<open>AttributeError\<close> when the
  field holds a number.\<close>

definition milwaukee_date :: "raw \<Rightarrow> py_error + string" where
  "milwaukee_date record =
     (if truthy (get record ''issue_date'') then
        case get_default record ''issue_date'' (JStr '''') of
          JStr s \<Rightarrow> Inr (takeWhile (\<lambda>c. c \<noteq> CHR ''T'') s)
        | _ \<Rightarrow> Inl AttributeError
      else Inr ''N/A'')"

definition milwaukee_make_permit :: "'d builtins \<Rightarrow> jv \<Rightarrow> raw \<Rightarrow> py_error + milwaukee_permit" where
  "milwaukee_make_permit B pid record =
     (case milwaukee_date record of
        Inl e \<Rightarrow> Inl e
      | Inr date \<Rightarrow>
          Inr \<lparr>m_permit_number = pid,
               m_address = py_or (get record ''address'') (JStr ''N/A''),
               m_permit_type = py_or (get record ''permit_type'') (JStr ''N/A''),
               m_description =
                 ''Value: '' @ py_str B (get_default record ''project_value'' (JStr ''$0.00''))
                 @ '', Status: '' @ py_str B (py_or (get record ''status'') (JStr ''N/A'')),
               m_date = date,
               m_city = ''Milwaukee''\<rparr>)"

text \<open>The body of \<open>for record in data\<close>: the identifier enters the seen set before the dict
  is built, so it stays there when building the dict raises.\<close>

definition milwaukee_add_record ::
  "'d builtins \<Rightarrow> milwaukee_scraper \<Rightarrow> raw \<Rightarrow> py_error option \<times> milwaukee_scraper" where
  "milwaukee_add_record B s record =
     (let pid = get record ''permit_number'' in
      if truthy pid \<and> pid \<notin> m_seen_permit_ids s then
        let s1 = s\<lparr>m_seen_permit_ids := insert pid (m_seen_permit_ids s)\<rparr> in
        case milwaukee_make_permit B pid record of
          Inl e \<Rightarrow> (Some e, s1)
        | Inr p \<Rightarrow> (None, s1\<lparr>m_permits := m_permits s1 @ [p]\<rparr>)
      else (None, s))"

fun milwaukee_process_batch ::
  "'d builtins \<Rightarrow> milwaukee_scraper \<Rightarrow> raw list \<Rightarrow> py_error option \<times> milwaukee_scraper" where
  "milwaukee_process_batch B s [] = (None, s)"
| "milwaukee_process_batch B s (record # rest) =
     (case milwaukee_add_record B s record of
        (Some e, s') \<Rightarrow> (Some e, s')
      | (None, s') \<Rightarrow> milwaukee_process_batch B s' rest)"

text \<open>
  The \<open>while len(self.permits) < max_permits\<close> loop for one endpoint. \<open>fetch endpoint k offset\<close>
  is the result of the \<open>k\<close>-th call of \<open>_fetch_batch\<close>. The loop need not end (a source that
  keeps answering with full batches of records already seen never lets \<open>self.permits\<close>
  grow), so its result is an option: \<open>None\<close> when it runs forever, otherwise whether an
  exception left the loop, the number of calls made, and the scraper.
\<close>

partial_function (option) milwaukee_loop ::
  "'d builtins \<Rightarrow> (string \<Rightarrow> nat \<Rightarrow> int \<Rightarrow> fetch_result) \<Rightarrow> string \<Rightarrow> int \<Rightarrow> nat \<Rightarrow> int
     \<Rightarrow> milwaukee_scraper \<Rightarrow> (bool \<times> nat \<times> milwaukee_scraper) option"
where
  "milwaukee_loop B fetch endpoint max_permits k offset s =
     (if int (length (m_permits s)) < max_permits then
        case fetch endpoint k offset of
          Data data \<Rightarrow>
            if data = [] then Some (False, k + 1, s)
            else
              (case milwaukee_process_batch B s data of
                 (Some e, s') \<Rightarrow> Some (True, k + 1, s')
               | (None, s') \<Rightarrow>
                   if length data < 1000 then Some (False, k + 1, s')
                   else milwaukee_loop B fetch endpoint max_permits (k + 1) (offset + 1000) s')
        | Request_exception \<Rightarrow> Some (True, k + 1, s)
        | Other_exception \<Rightarrow> Some (True, k + 1, s)
      else Some (False, k, s))"

text \<open>\<open>for endpoint in self.endpoints\<close>: an exception is logged and the next endpoint tried;
  the loop over endpoints stops as soon as there are permits.\<close>

fun milwaukee_endpoints ::
  "'d builtins \<Rightarrow> (string \<Rightarrow> nat \<Rightarrow> int \<Rightarrow> fetch_result) \<Rightarrow> int \<Rightarrow> string list \<Rightarrow> nat
     \<Rightarrow> milwaukee_scraper \<Rightarrow> milwaukee_scraper option"
where
  "milwaukee_endpoints B fetch max_permits [] k s = Some s"
| "milwaukee_endpoints B fetch max_permits (endpoint # rest) k s =
     (case milwaukee_loop B fetch endpoint max_permits k 0 s of
        None \<Rightarrow> None
      | Some (raised, k', s') \<Rightarrow>
          if \<not> raised \<and> m_permits s' \<noteq> [] then Some s'
          else milwaukee_endpoints B fetch max_permits rest k' s')"

definition milwaukee_url :: string where
  "milwaukee_url = ''https://data.milwaukee.gov/resource/ibb5-m9j5.json''"

definition get_permits ::
  "'d builtins \<Rightarrow> (string \<Rightarrow> nat \<Rightarrow> int \<Rightarrow> fetch_result) \<Rightarrow> int \<Rightarrow> milwaukee_scraper
     \<Rightarrow> (milwaukee_permit list \<times> milwaukee_scraper) option"
where
  "get_permits B fetch max_permits s =
     map_option (\<lambda>s'. (m_permits s', s'))
       (milwaukee_endpoints B fetch max_permits [milwaukee_url] 0 s)"

text \<open>Vocabulary for the Milwaukee scraper, as for Charlotte's; a fetch result ends the
  batching when it is an exception or a batch of fewer than 1000 records.\<close>

definition m_ids :: "milwaukee_permit list \<Rightarrow> jv list" where
  "m_ids ps = map m_permit_number ps"

definition m_ids_consistent :: "milwaukee_scraper \<Rightarrow> bool" where
  "m_ids_consistent s =
     (distinct (m_ids (m_permits s)) \<and> set (m_ids (m_permits s)) \<subseteq> m_seen_permit_ids s)"

definition m_grown :: "milwaukee_scraper \<Rightarrow> milwaukee_scraper \<Rightarrow> bool" where
  "m_grown s s' =
     (prefix (m_permits s) (m_permits s') \<and>
      m_seen_permit_ids s \<subseteq> m_seen_permit_ids s' \<and>
      distinct (m_ids (drop (length (m_permits s)) (m_permits s'))) \<and>
      set (m_ids (drop (length (m_permits s)) (m_permits s'))) \<inter> m_seen_permit_ids s = {} \<and>
      set (m_ids (drop (length (m_permits s)) (m_permits s'))) \<subseteq> m_seen_permit_ids s')"

fun ends_batching :: "fetch_result \<Rightarrow> bool" where
  "ends_batching (Data data) = (length data < 1000)"
| "ends_batching Request_exception = True"
| "ends_batching Other_exception = True"

definition record_c :: raw where
  "record_c = [''permit_number'' \<mapsto> JStr ''C-3'', ''issue_date'' \<mapsto> JStr ''2024-06-02T10:00:00'']"

fun milwaukee_first :: "string \<Rightarrow> nat \<Rightarrow> int \<Rightarrow> fetch_result" where
  "milwaukee_first endpoint k offset = Data [record_a, record_c, record_a]"

fun milwaukee_second :: "string \<Rightarrow> nat \<Rightarrow> int \<Rightarrow> fetch_result" where
  "milwaukee_second endpoint k offset = Data [record_c, record_b]"



section \<open>The Retry Primitive (\<open>retry_with_backoff\<close> of utils.py)\<close>

text \<open>
  The scrapers import the decorator \<open>retry_with_backoff\<close> from the module \<open>utils\<close> and put
  it on \<open>_fetch_batch\<close> as
  \<open>@retry_with_backoff(max_retries=3, initial_delay=2, exceptions=(requests.RequestException,))\<close>.
  The module itself is not among the sources, so the primitive is taken from the spec.
  What it does to the outside is to invoke the wrapped operation and to wait; the model
  keeps these calls in a list, in the order they are made. \<open>operation n\<close> is the outcome of
  the \<open>n\<close>-th invocation, counted from 1: \<open>Inr\<close> the value returned or \<open>Inl\<close> the error raised.
\<close>

datatype retry_call = Invoke nat | Backoff real

text \<open>Modelled from the spec: the attempts of \<open>retry_with_backoff\<close> (utils.py, not among the
  sources) that are still to make, \<open>retries_left\<close> re-invocations being allowed after the
  invocation numbered \<open>attempt_number\<close>. The spec's contract: execute the operation; on a
  transient failure wait \<open>initial_delay * attempt_number\<close> and retry; on a non-transient
  failure propagate at once; after exhausting the attempts propagate the last failure; no
  effect besides the operation and the wait.\<close>

fun retry_attempts ::
  "(nat \<Rightarrow> 'e + 'a) \<Rightarrow> 'e set \<Rightarrow> real \<Rightarrow> nat \<Rightarrow> nat \<Rightarrow> retry_call list
     \<Rightarrow> ('e + 'a) \<times> retry_call list"
where
  "retry_attempts operation transient initial_delay 0 attempt_number calls =
     (operation attempt_number, calls @ [Invoke attempt_number])"
| "retry_attempts operation transient initial_delay (Suc retries_left) attempt_number calls =
     (case operation attempt_number of
        Inr v \<Rightarrow> (Inr v, calls @ [Invoke attempt_number])
      | Inl e \<Rightarrow>
          if e \<in> transient then
            retry_attempts operation transient initial_delay retries_left (attempt_number + 1)
              (calls @ [Invoke attempt_number, Backoff (initial_delay * real attempt_number)])
          else (Inl e, calls @ [Invoke attempt_number]))"

text \<open>Modelled from the spec: \<open>retry_with_backoff\<close> (utils.py, not among the sources), given
  the bound on the retries, the initial delay, the set of error kinds considered transient
  and the operation: the first invocation and up to \<open>max_retries\<close> re-invocations. The
  result is the value returned or the error propagated, with the calls made.\<close>

definition retry_with_backoff ::
  "nat \<Rightarrow> real \<Rightarrow> 'e set \<Rightarrow> (nat \<Rightarrow> 'e + 'a) \<Rightarrow> ('e + 'a) \<times> retry_call list"
where
  "retry_with_backoff max_retries initial_delay transient operation =
     retry_attempts operation transient initial_delay max_retries 1 []"

text \<open>Vocabulary: an outcome that is a transient failure; the calls made from invocation
  \<open>a\<close> up to invocation \<open>k\<close> when every invocation before \<open>k\<close> fails transiently; and three
  operations for the examples, with the error kinds of the scrapers' use.\<close>

definition transient_failure :: "'e set \<Rightarrow> 'e + 'a \<Rightarrow> bool" where
  "transient_failure transient r = (case r of Inl e \<Rightarrow> e \<in> transient | Inr v \<Rightarrow> False)"

definition failing_invocations :: "real \<Rightarrow> nat \<Rightarrow> nat \<Rightarrow> retry_call list" where
  "failing_invocations initial_delay a k =
     concat (map (\<lambda>n. [Invoke n, Backoff (initial_delay * real n)]) [a..<k]) @ [Invoke k]"

fun is_invoke :: "retry_call \<Rightarrow> bool" where
  "is_invoke (Invoke n) = True"
| "is_invoke (Backoff t) = False"

datatype exception = RequestException | KeyError

fun always_timeout :: "nat \<Rightarrow> exception + nat" where
  "always_timeout n = Inl RequestException"

fun key_error_at_second :: "nat \<Rightarrow> exception + nat" where
  "key_error_at_second n = (if n = 2 then Inl KeyError else Inl RequestException)"

fun answer_at_third :: "nat \<Rightarrow> exception + nat" where
  "answer_at_third n = (if n = 3 then Inr 42 else Inl RequestException)"

section \<open>Properties of the scheduler\<close>

subsection \<open>The weighted pool\<close>

lemma count_list_replicate: "count_list (replicate n x) y = (if x = y then n else 0)"
  by (induction n) auto

lemma count_weighted_notin:
  "city \<notin> fst ` set cities \<Longrightarrow> count_list (weighted_cities cities fc) city = 0"
  by (induction cities fc rule: weighted_cities.induct) (auto simp: count_list_replicate)

lemma count_weighted:
  "distinct (map fst cities) \<Longrightarrow> (city, priority) \<in> set cities \<Longrightarrow>
   count_list (weighted_cities cities fc) city = nat (weight priority (fc city))"
  by (induction cities fc rule: weighted_cities.induct)
     (auto simp: count_list_replicate count_weighted_notin image_iff)

lemma weight_floor: "0 \<le> priority \<Longrightarrow> priority * 1 \<le> weight priority f"
  unfolding weight_def failure_penalty_def by (intro mult_left_mono) auto

lemma weight_antimono:
  "0 \<le> priority \<Longrightarrow> f \<le> f' \<Longrightarrow> weight priority f' \<le> weight priority f"
  unfolding weight_def failure_penalty_def by (intro mult_left_mono) auto

lemma in_pool_chosen:
  assumes "city \<in> set (weighted_cities cities fc)"
  shows "\<exists>r. get_next_city cities fc r = Inr city"
proof -
  from assms obtain i where
    i: "i < length (weighted_cities cities fc)" "weighted_cities cities fc ! i = city"
    by (auto simp: in_set_conv_nth)
  then have "get_next_city cities fc i = Inr city"
    by (auto simp: get_next_city_def Let_def)
  then show ?thesis ..
qed

lemma draws_count:
  "card {r. r < length (weighted_cities cities fc) \<and> get_next_city cities fc r = Inr city}
     = count_list (weighted_cities cities fc) city"
proof -
  let ?pool = "weighted_cities cities fc"
  have "{r. r < length ?pool \<and> get_next_city cities fc r = Inr city}
        = {r. r < length ?pool \<and> ?pool ! r = city}"
    by (auto simp: get_next_city_def Let_def)
  then show ?thesis
    by (simp add: count_list_eq_length_filter length_filter_conv_card eq_commute)
qed

lemma length_weighted:
  "length (weighted_cities cities fc)
     = sum_list (map (\<lambda>(c, p). nat (weight p (fc c))) cities)"
  by (induction cities fc rule: weighted_cities.induct) simp_all

text \<open>
  C2. For a table of targets with distinct names and a target of positive priority in it,
  whatever the failure counters are: the target's weight is
  \<open>priority * max 1 (5 - failures)\<close>, and this weight is what \<open>get_next_city\<close> selects by.
  The pool has one slot per unit of weight of every target; \<open>random.choice\<close> draws one of
  these slots, every draw yields a target of the pool, and the number of draws that yield the
  target is its weight, so the target is selected with probability weight over the sum of all
  weights. The weight is at least \<open>priority * 1\<close> and positive, so some draw selects the
  target, and a target of the same priority with no more failures is selected by at least as
  many draws.
\<close>

theorem selection_weight:
  assumes "distinct (map fst cities)" and "(city, priority) \<in> set cities" and "0 < priority"
  shows "weight priority (fc city) = priority * max 1 (5 - fc city)
       \<and> count_list (weighted_cities cities fc) city = nat (weight priority (fc city))
       \<and> length (weighted_cities cities fc)
           = sum_list (map (\<lambda>(c, p). nat (weight p (fc c))) cities)
       \<and> (\<forall>r. get_next_city cities fc r
               = Inr (weighted_cities cities fc ! (r mod length (weighted_cities cities fc))))
       \<and> card {r. r < length (weighted_cities cities fc) \<and> get_next_city cities fc r = Inr city}
           = nat (weight priority (fc city))
       \<and> weight priority (fc city) \<ge> priority * 1
       \<and> 0 < weight priority (fc city)
       \<and> (\<exists>r. get_next_city cities fc r = Inr city)
       \<and> (\<forall>city'. (city', priority) \<in> set cities \<and> fc city' \<le> fc city \<longrightarrow>
             count_list (weighted_cities cities fc) city
               \<le> count_list (weighted_cities cities fc) city'
             \<and> card {r. r < length (weighted_cities cities fc)
                        \<and> get_next_city cities fc r = Inr city}
               \<le> card {r. r < length (weighted_cities cities fc)
                          \<and> get_next_city cities fc r = Inr city'})"
proof -
  let ?pool = "weighted_cities cities fc"
  have w: "weight priority (fc city) = priority * max 1 (5 - fc city)"
    by (simp add: weight_def failure_penalty_def)
  have c: "count_list ?pool city = nat (weight priority (fc city))"
    using assms(1,2) by (rule count_weighted)
  have l: "length ?pool = sum_list (map (\<lambda>(c, p). nat (weight p (fc c))) cities)"
    by (rule length_weighted)
  have f: "priority * 1 \<le> weight priority (fc city)"
    using assms(3) weight_floor[of priority "fc city"] by simp
  have p: "0 < weight priority (fc city)" using f assms(3) by simp
  have "count_list ?pool city > 0" using c p by simp
  then have mem: "city \<in> set ?pool"
    using count_list_0_iff[of ?pool city] by auto
  then have r: "\<exists>r. get_next_city cities fc r = Inr city" by (rule in_pool_chosen)
  have ne: "?pool \<noteq> []" using mem by auto
  have g: "get_next_city cities fc r = Inr (?pool ! (r mod length ?pool))" for r
    using ne by (simp add: get_next_city_def Let_def)
  have d: "card {r. r < length ?pool \<and> get_next_city cities fc r = Inr city}
            = nat (weight priority (fc city))"
    unfolding draws_count by (rule c)
  have m: "count_list ?pool city \<le> count_list ?pool city'
         \<and> card {r. r < length ?pool \<and> get_next_city cities fc r = Inr city}
             \<le> card {r. r < length ?pool \<and> get_next_city cities fc r = Inr city'}"
    if "(city', priority) \<in> set cities" "fc city' \<le> fc city" for city'
  proof -
    have "count_list ?pool city' = nat (weight priority (fc city'))"
      using assms(1) that(1) by (rule count_weighted)
    moreover have "weight priority (fc city) \<le> weight priority (fc city')"
      using assms(3) that(2) by (simp add: weight_antimono)
    ultimately have "count_list ?pool city \<le> count_list ?pool city'" using c by simp
    then show ?thesis unfolding draws_count by simp
  qed
  show ?thesis
  proof (intro conjI allI impI)
    fix city' assume "(city', priority) \<in> set cities \<and> fc city' \<le> fc city"
    then have *: "(city', priority) \<in> set cities" "fc city' \<le> fc city" by simp_all
    show "count_list ?pool city \<le> count_list ?pool city'" using m[OF *] by simp
    show "card {r. r < length ?pool \<and> get_next_city cities fc r = Inr city}
             \<le> card {r. r < length ?pool \<and> get_next_city cities fc r = Inr city'}"
      using m[OF *] by simp
  qed (rule w c l g d f p r)+
qed

theorem selection_weight_witness:
  "distinct (map fst CITIES) \<and> (''nashville'', 3) \<in> set CITIES \<and> (0::int) < 3
   \<and> (''austin'', 3) \<in> set CITIES
   \<and> ((\<lambda>_. 0)(''nashville'' := 7)) ''austin'' \<le> ((\<lambda>_. 0)(''nashville'' := 7::int)) ''nashville''
   \<and> weight 3 7 = 3 * max 1 (5 - 7)
   \<and> count_list (weighted_cities CITIES ((\<lambda>_. 0)(''nashville'' := 7))) ''nashville'' = 3
   \<and> length (weighted_cities CITIES ((\<lambda>_. 0)(''nashville'' := 7))) = 83
   \<and> card {r. r < length (weighted_cities CITIES ((\<lambda>_. 0)(''nashville'' := 7)))
              \<and> get_next_city CITIES ((\<lambda>_. 0)(''nashville'' := 7)) r = Inr ''nashville''} = 3
   \<and> (\<exists>r. get_next_city CITIES ((\<lambda>_. 0)(''nashville'' := 7)) r = Inr ''nashville'')
   \<and> count_list (weighted_cities CITIES ((\<lambda>_. 0)(''nashville'' := 7))) ''nashville''
        \<le> count_list (weighted_cities CITIES ((\<lambda>_. 0)(''nashville'' := 7))) ''austin''
   \<and> card {r. r < length (weighted_cities CITIES ((\<lambda>_. 0)(''nashville'' := 7)))
              \<and> get_next_city CITIES ((\<lambda>_. 0)(''nashville'' := 7)) r = Inr ''nashville''}
        \<le> card {r. r < length (weighted_cities CITIES ((\<lambda>_. 0)(''nashville'' := 7)))
              \<and> get_next_city CITIES ((\<lambda>_. 0)(''nashville'' := 7)) r = Inr ''austin''}"
proof -
  let ?fc = "(\<lambda>_. 0)(''nashville'' := 7::int)"
  have h1: "distinct (map fst CITIES)" by (simp add: CITIES_def)
  have h2: "(''nashville'', 3) \<in> set CITIES" by (simp add: CITIES_def)
  have h3: "(''austin'', 3) \<in> set CITIES" by (simp add: CITIES_def)
  have h4: "?fc ''austin'' \<le> ?fc ''nashville''" by simp
  have w: "weight 3 7 = 3" by (simp add: weight_def failure_penalty_def)
  have w': "weight 3 7 = 3 * max 1 (5 - 7)" by (simp add: weight_def failure_penalty_def)
  have pos: "(0::int) < 3" by simp
  note S = selection_weight[OF h1 h2 pos, of ?fc]
  note S2 = S[THEN conjunct2]
  note S3 = S2[THEN conjunct2]
  note S5 = S3[THEN conjunct2, THEN conjunct2]
  note S8 = S5[THEN conjunct2, THEN conjunct2, THEN conjunct2]
  have c: "count_list (weighted_cities CITIES ?fc) ''nashville'' = 3"
    using S2[THEN conjunct1] by (simp add: w)
  have "length (weighted_cities CITIES ?fc)
          = sum_list (map (\<lambda>(c, p). nat (weight p (?fc c))) CITIES)"
    by (rule S3[THEN conjunct1])
  also have "\<dots> = 83" by (simp add: CITIES_def weight_def failure_penalty_def)
  finally have l: "length (weighted_cities CITIES ?fc) = 83" .
  have d: "card {r. r < length (weighted_cities CITIES ?fc)
                  \<and> get_next_city CITIES ?fc r = Inr ''nashville''} = 3"
    using S5[THEN conjunct1] by (simp add: w)
  have r: "\<exists>r. get_next_city CITIES ?fc r = Inr ''nashville''"
    by (rule S8[THEN conjunct1])
  have m: "count_list (weighted_cities CITIES ?fc) ''nashville''
             \<le> count_list (weighted_cities CITIES ?fc) ''austin''
         \<and> card {r. r < length (weighted_cities CITIES ?fc)
                    \<and> get_next_city CITIES ?fc r = Inr ''nashville''}
             \<le> card {r. r < length (weighted_cities CITIES ?fc)
                    \<and> get_next_city CITIES ?fc r = Inr ''austin''}"
    using S8[THEN conjunct2, rule_format, of "''austin''"] h3 h4 by blast
  show ?thesis
    by (intro conjI h1 h2 pos h3 h4 w' c l d r m[THEN conjunct1] m[THEN conjunct2])
qed

subsection \<open>One call of \<open>run_scraper\<close>\<close>

lemma attempt_events_rec:
  "a < k \<Longrightarrow> attempt_events city a k = Attempt city a # Sleep (5 * (a + 1)) # attempt_events city (a + 1) k"
  by (simp add: attempt_events_def upto_rec1[of a "k - 1"])

lemma attempt_events_same: "attempt_events city k k = [Attempt city k]"
  by (simp add: attempt_events_def)

lemma run_attempts_all_failed:
  assumes "city \<in> set configured" 
  shows "a \<le> m \<Longrightarrow> (\<And>i. a \<le> i \<Longrightarrow> i \<le> m \<Longrightarrow> failed (scrape city i)) \<Longrightarrow>
    run_attempts scrape now city m [a..m] st =
      (False, give_up city (failure_reason (scrape city m))
                (st\<lparr>trace := trace st @ attempt_events city a m\<rparr>))"
proof (induction "nat (m - a)" arbitrary: a st)
  case 0
  then have am: "a = m" by simp
  have f: "failed (scrape city m)" using 0 by simp
  show ?case using assms f unfolding am
    by (cases "scrape city m") (simp_all add: attempt_events_same)
next
  case (Suc n)
  then have lt: "a < m" by linarith
  have up: "[a..m] = a # [a + 1..m]" using lt by (simp add: upto_rec1)
  have f: "failed (scrape city a)" using Suc.prems lt by simp
  have IH: "run_attempts scrape now city m [a + 1..m] st' =
      (False, give_up city (failure_reason (scrape city m))
                (st'\<lparr>trace := trace st' @ attempt_events city (a + 1) m\<rparr>))" for st'
    using Suc.hyps(1)[of "a + 1" st'] Suc.hyps(2) Suc.prems lt by simp
  show ?case unfolding up using assms f lt
    by (cases "scrape city a") (simp_all add: IH retry_wait_def attempt_events_rec)
qed

lemma run_attempts_first_success:
  assumes "city \<in> set configured" and "scrape city k = Returned ps" and "ps \<noteq> []" and "k \<le> m"
  shows "a \<le> k \<Longrightarrow> (\<And>i. a \<le> i \<Longrightarrow> i < k \<Longrightarrow> failed (scrape city i)) \<Longrightarrow>
    run_attempts scrape now city m [a..m] st =
      (True, st\<lparr>trace := trace st @ attempt_events city a k,
                failure_counts := (failure_counts st)(city := 0),
                last_success := (last_success st)(city \<mapsto> now)\<rparr>)"
proof (induction "nat (k - a)" arbitrary: a st)
  case 0
  then have ak: "a = k" by simp
  have up: "[k..m] = k # [k + 1..m]" using assms(4) by (simp add: upto_rec1)
  show ?case using assms by (simp add: ak up attempt_events_same fun_upd_def cong: if_cong)
next
  case (Suc n)
  then have lt: "a < k" by linarith
  then have ltm: "a < m" using assms(4) by simp
  have up: "[a..m] = a # [a + 1..m]" using ltm by (simp add: upto_rec1)
  have f: "failed (scrape city a)" using Suc.prems lt by simp
  have IH: "run_attempts scrape now city m [a + 1..m] st' =
      (True, st'\<lparr>trace := trace st' @ attempt_events city (a + 1) k,
                failure_counts := (failure_counts st')(city := 0),
                last_success := (last_success st')(city \<mapsto> now)\<rparr>)" for st'
    using Suc.hyps(1)[of "a + 1" st'] Suc.hyps(2) Suc.prems lt by simp
  show ?case unfolding up using assms(1) f lt ltm
    by (cases "scrape city a") (simp_all add: IH retry_wait_def attempt_events_rec)
qed

lemma give_up_alerts:
  "alerts (give_up city e st) =
     alerts st @ (if (failure_counts st city + 1) mod 3 = 0 then [(city, e, failure_counts st city + 1)] else [])"
  by (simp add: give_up_def send_alert_email_def Let_def)

lemma give_up_counts:
  "failure_counts (give_up city e st) = (failure_counts st)(city := failure_counts st city + 1)"
  by (simp add: give_up_def send_alert_email_def Let_def)

lemma retry_wait_fields:
  "failure_counts (retry_wait city attempt st) = failure_counts st"
  "alerts (retry_wait city attempt st) = alerts st"
  "last_success (retry_wait city attempt st) = last_success st"
  by (simp_all add: retry_wait_def)

lemma run_attempts_alerts:
  "run_attempts scrape now city m as st = (ok, st') \<Longrightarrow>
     (ok \<and> alerts st' = alerts st \<and> failure_counts st' = (failure_counts st)(city := 0)) \<or>
     (\<not> ok \<and> alerts st' = alerts st \<and> failure_counts st' = failure_counts st) \<or>
     (\<not> ok \<and> failure_counts st' = (failure_counts st)(city := failure_counts st city + 1) \<and>
        (\<exists>e. alerts st' = alerts st @
           (if (failure_counts st city + 1) mod 3 = 0 then [(city, e, failure_counts st city + 1)] else [])))"
proof (induction scrape now city m as st rule: run_attempts.induct)
  case (1 scrape now city max_retries st)
  then show ?case by auto
next
  case (2 scrape now city max_retries attempt rest st)
  show ?case
  proof (cases "city \<in> set configured")
    case False
    with 2 show ?thesis by auto
  next
    case True
    show ?thesis
    proof (cases "scrape city attempt")
      case (Returned ps)
      show ?thesis
      proof (cases "ps \<noteq> []")
        case True
        with Returned 2(3) \<open>city \<in> set configured\<close> show ?thesis by auto
      next
        case False
        show ?thesis
        proof (cases "attempt < max_retries")
          case True
          have rec: "run_attempts scrape now city max_retries rest
             (retry_wait city attempt (st\<lparr>trace := trace st @ [Attempt city attempt]\<rparr>)) = (ok, st')"
            using 2(3) Returned False True \<open>city \<in> set configured\<close> by simp
          have nn: "\<not> city \<notin> set configured" using \<open>city \<in> set configured\<close> by simp
          have ne: "\<not> ps \<noteq> []" using False by simp
          from 2(1)[OF nn refl Returned ne True rec]
          show ?thesis unfolding retry_wait_fields by (simp cong: if_cong)
        next
          case F2: False
          have "ok = False" "st' = give_up city ''No permits returned after retries'' (st\<lparr>trace := trace st @ [Attempt city attempt]\<rparr>)"
            using 2(3) Returned False F2 \<open>city \<in> set configured\<close> by simp_all
          then show ?thesis by (auto simp: give_up_alerts give_up_counts)
        qed
      qed
    next
      case (Raised e)
      show ?thesis
      proof (cases "attempt < max_retries")
        case True
        have rec: "run_attempts scrape now city max_retries rest
             (retry_wait city attempt (st\<lparr>trace := trace st @ [Attempt city attempt]\<rparr>)) = (ok, st')"
          using 2(3) Raised True \<open>city \<in> set configured\<close> by simp
        have nn: "\<not> city \<notin> set configured" using \<open>city \<in> set configured\<close> by simp
        from 2(2)[OF nn refl Raised True rec]
        show ?thesis unfolding retry_wait_fields by (simp cong: if_cong)
      next
        case F2: False
        have "ok = False" "st' = give_up city e (st\<lparr>trace := trace st @ [Attempt city attempt]\<rparr>)"
          using 2(3) Raised F2 \<open>city \<in> set configured\<close> by simp_all
        then show ?thesis by (auto simp: give_up_alerts give_up_counts)
      qed
    qed
  qed
qed

lemma run_attempts_locality:
  "(\<And>i. scrape city i = scrape' city i) \<Longrightarrow>
   run_attempts scrape now city m as st = run_attempts scrape' now city m as st"
  by (induction as arbitrary: st) (simp_all add: Let_def split: outcome.splits)

lemma give_up_other:
  "c \<noteq> city \<Longrightarrow> failure_counts (give_up city e st) c = failure_counts st c"
  "last_success (give_up city e st) = last_success st"
  by (simp_all add: give_up_def send_alert_email_def Let_def)




lemma not_failed_Returned: "\<not> failed out \<Longrightarrow> \<exists>ps. out = Returned ps \<and> ps \<noteq> []"
  by (cases out) auto

lemma run_attempts_others:
  "c \<noteq> city \<Longrightarrow>
   failure_counts (snd (run_attempts scrape now city m as st)) c = failure_counts st c \<and>
   last_success (snd (run_attempts scrape now city m as st)) c = last_success st c"
  by (induction as arbitrary: st)
     (simp_all add: Let_def retry_wait_fields give_up_other split: outcome.splits)

lemma run_scraper_all_failed:
  assumes "city \<in> set configured" and "0 \<le> m"
    and "\<And>i. 0 \<le> i \<Longrightarrow> i \<le> m \<Longrightarrow> failed (scrape city i)"
  shows "run_scraper scrape now city m st =
           (False, give_up city (failure_reason (scrape city m))
                     (st\<lparr>trace := trace st @ attempt_events city 0 m\<rparr>))"
  unfolding run_scraper_def using assms by (intro run_attempts_all_failed) auto

lemma run_scraper_first_success:
  assumes "city \<in> set configured" and "0 \<le> k" and "k \<le> m" and "\<not> failed (scrape city k)"
    and "\<And>i. 0 \<le> i \<Longrightarrow> i < k \<Longrightarrow> failed (scrape city i)"
  shows "run_scraper scrape now city m st =
           (True, st\<lparr>trace := trace st @ attempt_events city 0 k,
                     failure_counts := (failure_counts st)(city := 0),
                     last_success := (last_success st)(city \<mapsto> now)\<rparr>)"
proof -
  from assms(4) obtain ps where p: "scrape city k = Returned ps" "ps \<noteq> []"
    using not_failed_Returned by blast
  show ?thesis unfolding run_scraper_def
    using assms(1) p assms(3) assms(2) assms(5) by (rule run_attempts_first_success)
qed



subsection \<open>Alert throttling\<close>

lemma send_alert_email_alerts:
  "alerts (send_alert_email city err n st) =
     alerts st @ (if n mod 3 = 0 then [(city, err, n)] else [])"
  by (simp add: send_alert_email_def)

lemma failing_cycles_alerts:
  assumes "city \<in> set configured" and "0 \<le> m"
    and "\<And>i. 0 \<le> i \<Longrightarrow> i \<le> m \<Longrightarrow> failed (scrape city i)"
    and "failure_counts st city = 0" and "alerts st = []"
  shows "failure_counts (run_cycles scrape now city m n st) city = int n \<and>
         map (\<lambda>a. snd (snd a)) (alerts (run_cycles scrape now city m n st))
           = map (\<lambda>j. 3 * (int j + 1)) [0..<n div 3]"
proof (induction n)
  case 0
  show ?case using assms(4,5) by simp
next
  case (Suc n)
  let ?s = "run_cycles scrape now city m n st"
  have step: "run_cycles scrape now city m (Suc n) st =
      give_up city (failure_reason (scrape city m))
        (?s\<lparr>trace := trace ?s @ attempt_events city 0 m\<rparr>)"
    using run_scraper_all_failed[of city m scrape now ?s, OF assms(1,2,3)] by simp
  have c: "failure_counts (run_cycles scrape now city m (Suc n) st) city = int (Suc n)"
    unfolding step using Suc by (simp add: give_up_counts)
  have a: "map (\<lambda>a. snd (snd a)) (alerts (run_cycles scrape now city m (Suc n) st)) =
      map (\<lambda>j. 3 * (int j + 1)) [0..<n div 3] @
        (if (int n + 1) mod 3 = 0 then [int n + 1] else [])"
    unfolding step using Suc by (simp add: give_up_alerts)
  show ?case
  proof (cases "Suc n mod 3 = 0")
    case True
    then have d: "Suc n div 3 = Suc (n div 3)" by presburger
    have e: "3 * (int (n div 3) + 1) = int n + 1" using True by presburger
    have i: "(int n + 1) mod 3 = 0" using True by presburger
    have "map (\<lambda>j. 3 * (int j + 1)) [0..<Suc n div 3] =
        map (\<lambda>j. 3 * (int j + 1)) [0..<n div 3] @ [int n + 1]"
      unfolding d using e by simp
    then show ?thesis using c a i by simp
  next
    case False
    then have d: "Suc n div 3 = n div 3" by presburger
    have i: "(int n + 1) mod 3 \<noteq> 0" using False by presburger
    show ?thesis using c a i unfolding d by simp
  qed
qed

text \<open>
  C3. \<open>send_alert_email\<close> hands a mail to the client exactly when the count it is given is
  a multiple of 3. One call of \<open>run_scraper\<close> adds an alert exactly when it fails, increments
  the target's failure count, and the new count is a multiple of 3; it never adds more than
  one, and the alert carries the new count. Over consecutive failed cycles of one target
  that starts with no failures, after \<open>n\<close> cycles the count is \<open>n\<close> and the alerts sent are
  those for the counts 3, 6, ..., one per multiple of 3 up to \<open>n\<close>.
\<close>

theorem alert_every_third_failure:
  "alerts (send_alert_email city err n st) =
     alerts st @ (if n mod 3 = 0 then [(city, err, n)] else [])
   \<and> (alerts (snd (run_scraper scrape now city m st)) \<noteq> alerts st \<longleftrightarrow>
        (\<not> fst (run_scraper scrape now city m st)
         \<and> failure_counts (snd (run_scraper scrape now city m st)) city
             = failure_counts st city + 1
         \<and> (failure_counts st city + 1) mod 3 = 0))
   \<and> (\<exists>e. alerts (snd (run_scraper scrape now city m st)) = alerts st
          \<or> alerts (snd (run_scraper scrape now city m st))
              = alerts st @ [(city, e, failure_counts st city + 1)])
   \<and> (city \<in> set configured \<and> 0 \<le> m
        \<and> (\<forall>i. 0 \<le> i \<and> i \<le> m \<longrightarrow> failed (scrape city i))
        \<and> failure_counts st city = 0 \<and> alerts st = [] \<longrightarrow>
        (\<forall>k. failure_counts (run_cycles scrape now city m k st) city = int k
           \<and> map (\<lambda>a. snd (snd a)) (alerts (run_cycles scrape now city m k st))
               = map (\<lambda>j. 3 * (int j + 1)) [0..<k div 3]))"
proof -
  obtain ok st' where r: "run_scraper scrape now city m st = (ok, st')"
    by (cases "run_scraper scrape now city m st")
  then have ra: "run_attempts scrape now city m [0..m] st = (ok, st')"
    by (simp add: run_scraper_def)
  note cases = run_attempts_alerts[OF ra]
  have iff: "alerts st' \<noteq> alerts st \<longleftrightarrow>
      (\<not> ok \<and> failure_counts st' city = failure_counts st city + 1
        \<and> (failure_counts st city + 1) mod 3 = 0)"
    using cases by (auto split: if_splits)
  have one: "\<exists>e. alerts st' = alerts st
          \<or> alerts st' = alerts st @ [(city, e, failure_counts st city + 1)]"
    using cases by (auto split: if_splits)
  have seq: "failure_counts (run_cycles scrape now city m k st) city = int k
           \<and> map (\<lambda>a. snd (snd a)) (alerts (run_cycles scrape now city m k st))
               = map (\<lambda>j. 3 * (int j + 1)) [0..<k div 3]"
    if "city \<in> set configured" "0 \<le> m"
       "\<forall>i. 0 \<le> i \<and> i \<le> m \<longrightarrow> failed (scrape city i)"
       "failure_counts st city = 0" "alerts st = []" for k
    using that by (intro failing_cycles_alerts) auto
  show ?thesis using iff one seq send_alert_email_alerts[of city err n st] by (simp add: r)
qed

theorem alert_every_third_failure_witness:
  "map (\<lambda>a. snd (snd a)) (alerts (run_cycles nothing_found ''now'' ''charlotte'' 2 2 initial_sched)) = []
   \<and> map (\<lambda>a. snd (snd a)) (alerts (run_cycles nothing_found ''now'' ''charlotte'' 2 3 initial_sched)) = [3]
   \<and> map (\<lambda>a. snd (snd a)) (alerts (run_cycles nothing_found ''now'' ''charlotte'' 2 5 initial_sched)) = [3]
   \<and> map (\<lambda>a. snd (snd a)) (alerts (run_cycles nothing_found ''now'' ''charlotte'' 2 6 initial_sched)) = [3, 6]
   \<and> failure_counts (run_cycles nothing_found ''now'' ''charlotte'' 2 6 initial_sched) ''charlotte'' = 6"
proof -
  have h: "''charlotte'' \<in> set configured \<and> (0::int) \<le> 2
        \<and> (\<forall>i. 0 \<le> i \<and> i \<le> 2 \<longrightarrow> failed (nothing_found ''charlotte'' i))
        \<and> failure_counts initial_sched ''charlotte'' = 0 \<and> alerts initial_sched = []"
    by (simp add: configured_def initial_sched_def)
  have T: "failure_counts (run_cycles nothing_found ''now'' ''charlotte'' 2 k initial_sched) ''charlotte'' = int k
           \<and> map (\<lambda>a. snd (snd a)) (alerts (run_cycles nothing_found ''now'' ''charlotte'' 2 k initial_sched))
               = map (\<lambda>j. 3 * (int j + 1)) [0..<k div 3]" for k
    using alert_every_third_failure[of "''charlotte''" "''e''" 0 initial_sched nothing_found
        "''now''" 2] h by blast
  have u2: "[0..<(2::nat)] = [0, 1]" by (simp add: upt_rec)
  show ?thesis using T[of 2] T[of 3] T[of 5] T[of 6] by (simp add: u2)
qed


subsection \<open>Routing\<close>

text \<open>
  C8, as the code has it. For every target without a routing entry, \<open>execute_routing\<close>
  returns \<open>None\<close> (no substitute and no reason) and leaves the recovery log and the log file
  as they were. It does not return the target itself.
\<close>

theorem execute_routing_unrouted:
  "routing_config ar city = None \<Longrightarrow> execute_routing timestamp city ar = (None, ar)"
  by (simp add: execute_routing_def)

theorem execute_routing_unrouted_witness:
  "routing_config new_auto_recovery ''nashville'' = None
   \<and> execute_routing ''2025-01-01T05:00:00'' ''nashville'' new_auto_recovery
       = (None, new_auto_recovery)"
proof -
  have h: "routing_config new_auto_recovery ''nashville'' = None"
    by (simp add: new_auto_recovery_def CITY_ROUTING_def)
  show ?thesis using execute_routing_unrouted[OF h] h by simp
qed

text \<open>The claim as stated fails: for the unrouted target \<open>nashville\<close> the value returned is
  \<open>None\<close>, not \<open>nashville\<close>.\<close>

theorem execute_routing_not_identity:
  "routing_config new_auto_recovery ''nashville'' = None
   \<and> fst (execute_routing ''2025-01-01T05:00:00'' ''nashville'' new_auto_recovery) = None
   \<and> fst (execute_routing ''2025-01-01T05:00:00'' ''nashville'' new_auto_recovery)
       \<noteq> Some ''nashville''"
  by (simp add: execute_routing_def new_auto_recovery_def CITY_ROUTING_def)

text \<open>
  C1, as the code has it. A routing entry is only reported: for every target with an entry,
  \<open>execute_routing\<close> returns the name of the entry's substitute (\<open>raleigh\<close> for \<open>charlotte\<close>)
  and logs the fact. \<open>run_scraper\<close> does not consult the routing table: it runs the scraper
  of the target it is given, its result does not depend on what any other target's scraper
  would return, and the outcome is recorded under the given target only. If that target's
  own scraper returns permits at the first attempt, the call succeeds and resets the
  target's failure count.
\<close>

theorem harvest_uses_own_scraper:
  "(\<forall>entry. routing_config ar target = Some entry \<longrightarrow>
        execute_routing timestamp target ar =
          (Some (route_to entry),
           log_recovery_action timestamp target ''ROUTING_EXECUTED''
             (target @ '' -> '' @ route_to entry) ar))
   \<and> fst (execute_routing timestamp ''charlotte'' new_auto_recovery) = Some ''raleigh''
   \<and> ((\<forall>i. scrape city i = scrape' city i) \<longrightarrow>
        run_scraper scrape now city m st = run_scraper scrape' now city m st)
   \<and> (\<forall>c. c \<noteq> city \<longrightarrow>
        failure_counts (snd (run_scraper scrape now city m st)) c = failure_counts st c
        \<and> last_success (snd (run_scraper scrape now city m st)) c = last_success st c)
   \<and> (city \<in> set configured \<and> 0 \<le> m \<and> scrape city 0 = Returned ps \<and> ps \<noteq> [] \<longrightarrow>
        run_scraper scrape now city m st =
          (True, st\<lparr>trace := trace st @ [Attempt city 0],
                    failure_counts := (failure_counts st)(city := 0),
                    last_success := (last_success st)(city \<mapsto> now)\<rparr>))"
proof -
  have g: "execute_routing timestamp target ar =
          (Some (route_to entry),
           log_recovery_action timestamp target ''ROUTING_EXECUTED''
             (target @ '' -> '' @ route_to entry) ar)"
    if "routing_config ar target = Some entry" for entry
    using that by (simp add: execute_routing_def)
  have a: "fst (execute_routing timestamp ''charlotte'' new_auto_recovery) = Some ''raleigh''"
    by (simp add: execute_routing_def new_auto_recovery_def CITY_ROUTING_def)
  have b: "run_scraper scrape now city m st = run_scraper scrape' now city m st"
    if "\<forall>i. scrape city i = scrape' city i"
    unfolding run_scraper_def using that by (intro run_attempts_locality) simp
  have c: "failure_counts (snd (run_scraper scrape now city m st)) c = failure_counts st c
        \<and> last_success (snd (run_scraper scrape now city m st)) c = last_success st c"
    if "c \<noteq> city" for c
    unfolding run_scraper_def using that by (rule run_attempts_others)
  have d: "run_scraper scrape now city m st =
          (True, st\<lparr>trace := trace st @ [Attempt city 0],
                    failure_counts := (failure_counts st)(city := 0),
                    last_success := (last_success st)(city \<mapsto> now)\<rparr>)"
    if "city \<in> set configured" "0 \<le> m" "scrape city 0 = Returned ps" "ps \<noteq> []"
    using run_scraper_first_success[of city 0 m scrape now st] that
    by (simp add: attempt_events_same)
  show ?thesis using g a b c d by blast
qed

theorem harvest_uses_own_scraper_witness:
  "routing_config new_auto_recovery ''houston''
     = Some \<lparr>route_to = ''chicago'', reason = ''Houston ArcGIS API returns 403 Forbidden'',
             fallback_count = 5891\<rparr>
   \<and> execute_routing ''2025-01-01T05:00:00'' ''houston'' new_auto_recovery
       = (Some ''chicago'',
          new_auto_recovery
            \<lparr>recovery_log :=
               [\<lparr>le_timestamp = ''2025-01-01T05:00:00'', le_city = ''houston'',
                 le_action = ''ROUTING_EXECUTED'', le_details = ''houston -> chicago''\<rparr>],
             log_file :=
               [''2025-01-01T05:00:00 | houston | ROUTING_EXECUTED | houston -> chicago'']\<rparr>)
   \<and> ''charlotte'' \<in> set configured \<and> (0::int) \<le> 2
   \<and> charlotte_finds_50 ''charlotte'' 0 = Returned (replicate 50 0)
   \<and> length (replicate 50 (0::nat)) = 50
   \<and> fst (run_scraper charlotte_finds_50 ''now'' ''charlotte'' 2 initial_sched) = True
   \<and> failure_counts (snd (run_scraper charlotte_finds_50 ''now'' ''charlotte'' 2 initial_sched))
        ''charlotte'' = 0
   \<and> last_success (snd (run_scraper charlotte_finds_50 ''now'' ''charlotte'' 2 initial_sched))
        ''charlotte'' = Some ''now''
   \<and> trace (snd (run_scraper charlotte_finds_50 ''now'' ''charlotte'' 2 initial_sched))
        = [Attempt ''charlotte'' 0]
   \<and> failure_counts (snd (run_scraper charlotte_finds_50 ''now'' ''charlotte'' 2 initial_sched))
        ''raleigh'' = 0
   \<and> raleigh_only ''charlotte'' 0 = nothing_found ''charlotte'' 0
   \<and> run_scraper raleigh_only ''now'' ''charlotte'' 2 initial_sched
        = run_scraper nothing_found ''now'' ''charlotte'' 2 initial_sched"
proof -
  let ?e = "\<lparr>route_to = ''chicago'', reason = ''Houston ArcGIS API returns 403 Forbidden'',
             fallback_count = 5891\<rparr>"
  have e: "routing_config new_auto_recovery ''houston'' = Some ?e"
    by (simp add: new_auto_recovery_def CITY_ROUTING_def)
  have "execute_routing ''2025-01-01T05:00:00'' ''houston'' new_auto_recovery =
          (Some (route_to ?e),
           log_recovery_action ''2025-01-01T05:00:00'' ''houston'' ''ROUTING_EXECUTED''
             (''houston'' @ '' -> '' @ route_to ?e) new_auto_recovery)"
    using harvest_uses_own_scraper[where ar = new_auto_recovery and target = "''houston''"
        and timestamp = "''2025-01-01T05:00:00''", THEN conjunct1, rule_format, OF e] .
  then have rt: "execute_routing ''2025-01-01T05:00:00'' ''houston'' new_auto_recovery
       = (Some ''chicago'',
          new_auto_recovery
            \<lparr>recovery_log :=
               [\<lparr>le_timestamp = ''2025-01-01T05:00:00'', le_city = ''houston'',
                 le_action = ''ROUTING_EXECUTED'', le_details = ''houston -> chicago''\<rparr>],
             log_file :=
               [''2025-01-01T05:00:00 | houston | ROUTING_EXECUTED | houston -> chicago'']\<rparr>)"
    by (simp add: log_recovery_action_def new_auto_recovery_def)
  have same: "\<forall>i. raleigh_only ''charlotte'' i = nothing_found ''charlotte'' i" by simp
  have ind: "run_scraper raleigh_only ''now'' ''charlotte'' 2 initial_sched
        = run_scraper nothing_found ''now'' ''charlotte'' 2 initial_sched"
    using harvest_uses_own_scraper[where scrape = raleigh_only and city = "''charlotte''"
        and scrape' = nothing_found and now = "''now''" and m = 2 and st = initial_sched]
      same by blast
  have h1: "''charlotte'' \<in> set configured" by (simp add: configured_def)
  have h2: "charlotte_finds_50 ''charlotte'' 0 = Returned (replicate 50 0)" by simp
  have h3: "replicate 50 (0::nat) \<noteq> []" by simp
  have r: "run_scraper charlotte_finds_50 ''now'' ''charlotte'' 2 initial_sched =
          (True, initial_sched\<lparr>trace := trace initial_sched @ [Attempt ''charlotte'' 0],
                    failure_counts := (failure_counts initial_sched)(''charlotte'' := 0),
                    last_success := (last_success initial_sched)(''charlotte'' \<mapsto> ''now'')\<rparr>)"
    using harvest_uses_own_scraper[where scrape = charlotte_finds_50 and city = "''charlotte''"
        and scrape' = charlotte_finds_50 and now = "''now''" and m = 2 and st = initial_sched
        and ps = "replicate 50 0"] h1 h2 h3
    by simp
  have z: "raleigh_only ''charlotte'' 0 = nothing_found ''charlotte'' 0" by simp
  have rest: "''charlotte'' \<in> set configured \<and> (0::int) \<le> 2
   \<and> charlotte_finds_50 ''charlotte'' 0 = Returned (replicate 50 0)
   \<and> length (replicate 50 (0::nat)) = 50
   \<and> fst (run_scraper charlotte_finds_50 ''now'' ''charlotte'' 2 initial_sched) = True
   \<and> failure_counts (snd (run_scraper charlotte_finds_50 ''now'' ''charlotte'' 2 initial_sched))
        ''charlotte'' = 0
   \<and> last_success (snd (run_scraper charlotte_finds_50 ''now'' ''charlotte'' 2 initial_sched))
        ''charlotte'' = Some ''now''
   \<and> trace (snd (run_scraper charlotte_finds_50 ''now'' ''charlotte'' 2 initial_sched))
        = [Attempt ''charlotte'' 0]
   \<and> failure_counts (snd (run_scraper charlotte_finds_50 ''now'' ''charlotte'' 2 initial_sched))
        ''raleigh'' = 0
   \<and> raleigh_only ''charlotte'' 0 = nothing_found ''charlotte'' 0
   \<and> run_scraper raleigh_only ''now'' ''charlotte'' 2 initial_sched
        = run_scraper nothing_found ''now'' ''charlotte'' 2 initial_sched"
    using z unfolding r ind using h1 by (simp add: initial_sched_def)
  show ?thesis by (intro conjI e rt rest[THEN conjunct1] rest[THEN conjunct2])
qed

text \<open>The claim as stated fails: with the routing entry in place and Raleigh's scraper
  returning 50 permits at every attempt, a harvest of \<open>charlotte\<close> runs Charlotte's scraper
  three times, never Raleigh's, finds nothing and records a failure.\<close>

theorem harvest_not_rerouted:
  "fst (execute_routing ''2025-01-01T05:00:00'' ''charlotte'' new_auto_recovery) = Some ''raleigh''
   \<and> raleigh_only ''raleigh'' 0 = Returned (replicate 50 0)
   \<and> fst (run_scraper raleigh_only ''now'' ''charlotte'' 2 initial_sched) = False
   \<and> trace (snd (run_scraper raleigh_only ''now'' ''charlotte'' 2 initial_sched))
       = [Attempt ''charlotte'' 0, Sleep 5, Attempt ''charlotte'' 1, Sleep 10,
          Attempt ''charlotte'' 2]
   \<and> failure_counts (snd (run_scraper raleigh_only ''now'' ''charlotte'' 2 initial_sched))
       ''charlotte'' = 1"
  by (simp add: execute_routing_def new_auto_recovery_def CITY_ROUTING_def run_scraper_def
      upto.simps configured_def retry_wait_def give_up_def send_alert_email_def
      initial_sched_def Let_def)

section \<open>Properties of the scrapers\<close>

subsection \<open>Growth of the permit list\<close>

declare scrape_loop.simps [simp del]

lemma grown_refl: "grown s s"
  by (simp add: grown_def ids_def)

lemma grown_trans:
  assumes "grown s s'" and "grown s' s''"
  shows "grown s s''"
proof -
  from assms(1) obtain n1 where n1: "permits s' = permits s @ n1"
    by (auto simp: grown_def prefix_def)
  from assms(2) obtain n2 where n2: "permits s'' = permits s' @ n2"
    by (auto simp: grown_def prefix_def)
  have a1: "distinct (ids n1)" "set (ids n1) \<inter> seen_permit_ids s = {}"
       "seen_permit_ids s' = seen_permit_ids s \<union> set (ids n1)"
    using assms(1) n1 by (simp_all add: grown_def)
  have a2: "distinct (ids n2)" "set (ids n2) \<inter> seen_permit_ids s' = {}"
       "seen_permit_ids s'' = seen_permit_ids s' \<union> set (ids n2)"
    using assms(2) n2 by (simp_all add: grown_def)
  have d: "drop (length (permits s)) (permits s'') = n1 @ n2"
    by (simp add: n1 n2)
  have "distinct (ids (n1 @ n2))" using a1 a2 by (auto simp: ids_def)
  moreover have "set (ids (n1 @ n2)) \<inter> seen_permit_ids s = {}"
    using a1 a2 by (auto simp: ids_def)
  moreover have "seen_permit_ids s'' = seen_permit_ids s \<union> set (ids (n1 @ n2))"
    using a1 a2 by (auto simp: ids_def)
  moreover have "prefix (permits s) (permits s'')" by (simp add: n1 n2)
  ultimately show ?thesis unfolding grown_def d by simp
qed

lemma make_permit_id [simp]: "p_permit_number (make_permit B i r) = i"
  by (simp add: make_permit_def)

lemma grown_add_record: "grown s (add_record B s r)"
  by (simp add: add_record_def Let_def grown_def ids_def)

lemma grown_process_batch: "grown s (process_batch B s data)"
  unfolding process_batch_def
proof (induction data arbitrary: s)
  case Nil
  show ?case by (simp add: grown_refl)
next
  case (Cons r data)
  have "grown s (add_record B s r)" by (rule grown_add_record)
  moreover have "grown (add_record B s r) (foldl (add_record B) (add_record B s r) data)"
    by (rule Cons.IH)
  ultimately show ?case by (simp add: grown_trans)
qed

lemma grown_save_partial: "grown s (save_partial s)"
  by (simp add: save_partial_def grown_def ids_def)

lemma grown_scrape_loop:
  "grown s (scrape_loop B fetch max_permits k offset total_fetched consecutive_failures s)"
proof (induction B fetch max_permits k offset total_fetched consecutive_failures s
       rule: scrape_loop.induct)
  case (1 B fetch max_permits k offset total_fetched consecutive_failures s)
  show ?case
  proof (cases "total_fetched < max_permits")
    case False
    then show ?thesis by (subst scrape_loop.simps) (simp add: grown_refl)
  next
    case True
    show ?thesis
    proof (cases "fetch k (min 1000 (max_permits - total_fetched)) offset")
      case (Data data)
      show ?thesis
      proof (cases "data = [] \<or> length data < 1000")
        case True
        then show ?thesis using \<open>total_fetched < max_permits\<close> Data
          by (subst scrape_loop.simps) (auto simp: grown_refl grown_process_batch Let_def)
      next
        case False
        then have ne: "data \<noteq> []" and full: "\<not> length data < 1000" by auto
        have "grown (process_batch B s data)
                (scrape_loop B fetch max_permits (k + 1) (offset + 1000)
                   (total_fetched + int (length data)) 0 (process_batch B s data))"
          using "1.IH"(1)[OF True Data ne refl full] .
        then have "grown s (scrape_loop B fetch max_permits (k + 1) (offset + 1000)
                   (total_fetched + int (length data)) 0 (process_batch B s data))"
          using grown_process_batch grown_trans by blast
        then show ?thesis using True Data ne full
          by (subst scrape_loop.simps) (simp add: Let_def)
      qed
    next
      case Request_exception
      show ?thesis
      proof (cases "consecutive_failures + 1 \<ge> 3")
        case T3: True
        then show ?thesis using True Request_exception
          by (subst scrape_loop.simps) (simp add: grown_save_partial)
      next
        case F3: False
        from "1.IH"(2)[OF True Request_exception F3] show ?thesis
          using True Request_exception F3 by (subst scrape_loop.simps) simp
      qed
    next
      case Other_exception
      show ?thesis
      proof (cases "consecutive_failures + 1 \<ge> 3")
        case T3: True
        then show ?thesis using True Other_exception
          by (subst scrape_loop.simps) (simp add: grown_save_partial)
      next
        case F3: False
        from "1.IH"(3)[OF True Other_exception F3] show ?thesis
          using True Other_exception F3 by (subst scrape_loop.simps) simp
      qed
    qed
  qed
qed

lemma grown_consistent:
  assumes "grown s s'" and "ids_consistent s"
  shows "ids_consistent s'"
proof -
  from assms(1) obtain n where n: "permits s' = permits s @ n"
    by (auto simp: grown_def prefix_def)
  show ?thesis using assms unfolding grown_def ids_consistent_def n
    by (auto simp: ids_def)
qed

lemma add_record_seen: "permit_id_of B r \<in> seen_permit_ids s \<Longrightarrow> add_record B s r = s"
  by (simp add: add_record_def)

lemma seen_add_record:
  "seen_permit_ids (add_record B s r) = insert (permit_id_of B r) (seen_permit_ids s)"
  by (auto simp: add_record_def Let_def)

lemma seen_process_batch:
  "seen_permit_ids (process_batch B s data) = seen_permit_ids s \<union> permit_id_of B ` set data"
  unfolding process_batch_def
  by (induction data arbitrary: s) (auto simp: seen_add_record)

lemma process_batch_all_seen:
  "(\<And>r. r \<in> set data \<Longrightarrow> permit_id_of B r \<in> seen_permit_ids s) \<Longrightarrow> process_batch B s data = s"
  unfolding process_batch_def
  by (induction data arbitrary: s) (simp_all add: add_record_seen)

lemma process_batch_again:
  "process_batch B (process_batch B s data) data = process_batch B s data"
  by (rule process_batch_all_seen) (simp add: seen_process_batch)

lemma process_batch_append:
  "process_batch B s (xs @ ys) = process_batch B (process_batch B s xs) ys"
  by (simp add: process_batch_def)

lemma grown_new_ids:
  assumes "grown s s'" and "set (ids (permits s)) = seen_permit_ids s"
  shows "set (ids (permits s')) = seen_permit_ids s'"
proof -
  from assms(1) obtain n where n: "permits s' = permits s @ n"
    by (auto simp: grown_def prefix_def)
  show ?thesis using assms unfolding grown_def n by (auto simp: ids_def)
qed

subsection \<open>The batch loop of the Dallas scraper\<close>

lemma dallas_make_permit_id [simp]: "p_permit_number (dallas_make_permit B i r) = JStr i"
  by (simp add: dallas_make_permit_def)

lemma grown_dallas_add_feature: "grown s (dallas_add_feature B s f)"
  by (simp add: dallas_add_feature_def Let_def grown_def ids_def)

lemma grown_dallas_process_batch: "grown s (dallas_process_batch B s features)"
  unfolding dallas_process_batch_def
proof (induction features arbitrary: s)
  case Nil
  show ?case by (simp add: grown_refl)
next
  case (Cons f features)
  have "grown s (dallas_add_feature B s f)" by (rule grown_dallas_add_feature)
  moreover have "grown (dallas_add_feature B s f)
      (foldl (dallas_add_feature B) (dallas_add_feature B s f) features)"
    by (rule Cons.IH)
  ultimately show ?case by (simp add: grown_trans)
qed

lemma dallas_add_feature_seen:
  "dallas_permit_id B (attributes f) = [] \<or> JStr (dallas_permit_id B (attributes f)) \<in> seen_permit_ids s
   \<Longrightarrow> dallas_add_feature B s f = s"
  by (auto simp: dallas_add_feature_def Let_def)

lemma seen_dallas_add_feature:
  "seen_permit_ids (dallas_add_feature B s f) =
     seen_permit_ids s \<union> (if dallas_permit_id B (attributes f) = [] then {}
                            else {JStr (dallas_permit_id B (attributes f))})"
  by (auto simp: dallas_add_feature_def Let_def)

lemma seen_dallas_process_batch_mono:
  "seen_permit_ids s \<subseteq> seen_permit_ids (dallas_process_batch B s features)"
  using grown_dallas_process_batch[of s B features] by (auto simp: grown_def)

lemma seen_dallas_process_batch:
  "f \<in> set features \<Longrightarrow> dallas_permit_id B (attributes f) \<noteq> [] \<Longrightarrow>
   JStr (dallas_permit_id B (attributes f)) \<in> seen_permit_ids (dallas_process_batch B s features)"
proof (induction features arbitrary: s)
  case Nil
  then show ?case by simp
next
  case (Cons g features)
  have unfold: "dallas_process_batch B s (g # features) =
      dallas_process_batch B (dallas_add_feature B s g) features"
    by (simp add: dallas_process_batch_def)
  show ?case
  proof (cases "f = g")
    case True
    then have "JStr (dallas_permit_id B (attributes f)) \<in> seen_permit_ids (dallas_add_feature B s g)"
      using Cons.prems(2) by (simp add: seen_dallas_add_feature)
    then show ?thesis unfolding unfold
      using seen_dallas_process_batch_mono[of "dallas_add_feature B s g" B features] by auto
  next
    case False
    then have "f \<in> set features" using Cons.prems(1) by simp
    then show ?thesis unfolding unfold using Cons.IH Cons.prems(2) by simp
  qed
qed

lemma dallas_process_batch_all_seen:
  "(\<And>f. f \<in> set features \<Longrightarrow> dallas_permit_id B (attributes f) = []
        \<or> JStr (dallas_permit_id B (attributes f)) \<in> seen_permit_ids s)
   \<Longrightarrow> dallas_process_batch B s features = s"
  unfolding dallas_process_batch_def
  by (induction features arbitrary: s) (simp_all add: dallas_add_feature_seen)

lemma dallas_process_batch_again:
  "dallas_process_batch B (dallas_process_batch B s features) features
     = dallas_process_batch B s features"
  by (rule dallas_process_batch_all_seen) (use seen_dallas_process_batch in blast)

lemma new_scraper_consistent: "ids_consistent new_scraper"
  by (simp add: ids_consistent_def new_scraper_def ids_def)

lemma permits_scrape_permits:
  "fst (scrape_permits B fetch max_permits s) = permits (scrape_loop B fetch max_permits 0 0 0 0 s)"
  "permits (snd (scrape_permits B fetch max_permits s)) = permits (scrape_loop B fetch max_permits 0 0 0 0 s)"
  "seen_permit_ids (snd (scrape_permits B fetch max_permits s))
     = seen_permit_ids (scrape_loop B fetch max_permits 0 0 0 0 s)"
  "partial_saves (snd (scrape_permits B fetch max_permits s))
     = partial_saves (scrape_loop B fetch max_permits 0 0 0 0 s)"
  by (simp_all add: scrape_permits_def Let_def)

lemma grown_scrape_permits: "grown s (snd (scrape_permits B fetch max_permits s))"
  using grown_scrape_loop[of s B fetch max_permits 0 0 0 0]
  by (simp add: grown_def permits_scrape_permits)

lemma grown_foldl_batches: "grown s (foldl (process_batch B) s pages)"
proof (induction pages arbitrary: s)
  case Nil
  show ?case by (simp add: grown_refl)
next
  case (Cons p pages)
  show ?case using grown_process_batch[of s B p] Cons.IH[of "process_batch B s p"]
    by (auto intro: grown_trans)
qed

lemma grown_foldl_dallas_batches: "grown s (foldl (dallas_process_batch B) s pages)"
proof (induction pages arbitrary: s)
  case Nil
  show ?case by (simp add: grown_refl)
next
  case (Cons p pages)
  show ?case using grown_dallas_process_batch[of s B p] Cons.IH[of "dallas_process_batch B s p"]
    by (auto intro: grown_trans)
qed

text \<open>
  C6. A run of \<open>scrape_permits\<close> on a new scraper returns permits with pairwise different
  identifiers, whatever the batches fetched. A raw record whose identifier is already in
  the seen set is skipped and changes nothing; processing any sequence of batches keeps the
  identifiers of the permit list pairwise different and inside the seen set; and processing
  a batch a second time adds nothing. The same holds for the batch loop of the Dallas
  scraper.
\<close>

theorem no_duplicate_ids:
  "distinct (ids (fst (scrape_permits B fetch max_permits new_scraper)))
   \<and> (permit_id_of B r \<in> seen_permit_ids s \<longrightarrow> add_record B s r = s)
   \<and> (ids_consistent s \<longrightarrow> ids_consistent (foldl (process_batch B) s pages))
   \<and> process_batch B (process_batch B s data) data = process_batch B s data
   \<and> (JStr (dallas_permit_id B (attributes f)) \<in> seen_permit_ids s \<longrightarrow>
        dallas_add_feature B s f = s)
   \<and> (ids_consistent s \<longrightarrow> ids_consistent (foldl (dallas_process_batch B) s feature_pages))
   \<and> dallas_process_batch B (dallas_process_batch B s features) features
        = dallas_process_batch B s features"
proof -
  have "ids_consistent (snd (scrape_permits B fetch max_permits new_scraper))"
    using grown_scrape_permits new_scraper_consistent by (rule grown_consistent)
  then have a: "distinct (ids (fst (scrape_permits B fetch max_permits new_scraper)))"
    by (simp add: ids_consistent_def permits_scrape_permits)
  have b: "ids_consistent (foldl (process_batch B) s pages)" if "ids_consistent s"
    using grown_foldl_batches that by (rule grown_consistent)
  have c: "ids_consistent (foldl (dallas_process_batch B) s feature_pages)" if "ids_consistent s"
    using grown_foldl_dallas_batches that by (rule grown_consistent)
  show ?thesis
    using a b c add_record_seen[of B r s] process_batch_again[of B s data]
      dallas_add_feature_seen[of B f s] dallas_process_batch_again[of B s features]
    by simp
qed

theorem no_duplicate_ids_witness:
  "permit_id_of demo_builtins record_a \<in> seen_permit_ids (add_record demo_builtins new_scraper record_a)
   \<and> add_record demo_builtins (add_record demo_builtins new_scraper record_a) record_a
       = add_record demo_builtins new_scraper record_a
   \<and> ids_consistent new_scraper
   \<and> ids_consistent (foldl (process_batch demo_builtins) new_scraper
        [[record_a, record_b], [record_a, record_b]])
   \<and> ids (permits (foldl (process_batch demo_builtins) new_scraper
        [[record_a, record_b], [record_a, record_b]])) = [JStr ''A-1'', JStr ''B-2'']
   \<and> JStr (dallas_permit_id demo_builtins (attributes feature_d))
        \<in> seen_permit_ids (dallas_add_feature demo_builtins new_scraper feature_d)
   \<and> dallas_add_feature demo_builtins (dallas_add_feature demo_builtins new_scraper feature_d)
        feature_d = dallas_add_feature demo_builtins new_scraper feature_d
   \<and> ids_consistent (foldl (dallas_process_batch demo_builtins) new_scraper
        [[feature_d, None], [feature_d]])
   \<and> ids (permits (foldl (dallas_process_batch demo_builtins) new_scraper
        [[feature_d, None], [feature_d]])) = [JStr ''D-4'']"
proof -
  let ?pages = "[[record_a, record_b], [record_a, record_b]]"
  let ?fpages = "[[feature_d, None], [feature_d]]"
  have h1: "permit_id_of demo_builtins record_a
              \<in> seen_permit_ids (add_record demo_builtins new_scraper record_a)"
    by (simp add: seen_add_record)
  have h2: "ids_consistent new_scraper" by (rule new_scraper_consistent)
  have d: "dallas_permit_id demo_builtins (attributes feature_d) = ''D-4''"
    by (simp add: dallas_permit_id_def attributes_def feature_d_def get_default_def
        demo_builtins_def)
  have h3: "JStr (dallas_permit_id demo_builtins (attributes feature_d))
        \<in> seen_permit_ids (dallas_add_feature demo_builtins new_scraper feature_d)"
    by (simp add: seen_dallas_add_feature d)
  note T1 = no_duplicate_ids[of demo_builtins "one_short_batch" 5000 record_a
      "add_record demo_builtins new_scraper record_a" ?pages "[record_a, record_b]" feature_d
      ?fpages "[feature_d]"]
  note T2 = no_duplicate_ids[of demo_builtins "one_short_batch" 5000 record_a
      new_scraper ?pages "[record_a, record_b]" feature_d ?fpages "[feature_d, None]"]
  note T3 = no_duplicate_ids[of demo_builtins "one_short_batch" 5000 record_a
      "dallas_add_feature demo_builtins new_scraper feature_d" ?pages "[record_a, record_b]"
      feature_d ?fpages "[feature_d]"]
  have t1: "add_record demo_builtins (add_record demo_builtins new_scraper record_a) record_a
       = add_record demo_builtins new_scraper record_a"
    using T1 h1 by blast
  have t2: "process_batch demo_builtins (process_batch demo_builtins new_scraper [record_a, record_b])
              [record_a, record_b] = process_batch demo_builtins new_scraper [record_a, record_b]"
    using T2 by blast
  have t3: "ids_consistent (foldl (process_batch demo_builtins) new_scraper ?pages)"
    using T2 h2 by blast
  have t4: "dallas_add_feature demo_builtins
              (dallas_add_feature demo_builtins new_scraper feature_d) feature_d
            = dallas_add_feature demo_builtins new_scraper feature_d"
    using T3 h3 by blast
  have t5: "ids_consistent (foldl (dallas_process_batch demo_builtins) new_scraper ?fpages)"
    using T2 h2 by blast
  have e: "ids (permits (process_batch demo_builtins new_scraper [record_a, record_b]))
            = [JStr ''A-1'', JStr ''B-2'']"
    by (simp add: process_batch_def add_record_def permit_id_of_def py_or_def get_def
        record_a_def record_b_def new_scraper_def ids_def Let_def)
  have dn: "dallas_permit_id demo_builtins (attributes None) = []"
    by (simp add: dallas_permit_id_def attributes_def get_default_def demo_builtins_def)
  have an: "dallas_add_feature demo_builtins s None = s" for s
    by (simp add: dallas_add_feature_seen dn)
  have af: "ids (permits (dallas_add_feature demo_builtins new_scraper feature_d)) = [JStr ''D-4'']"
    by (simp add: dallas_add_feature_def Let_def d new_scraper_def ids_def)
  have e2: "ids (permits (dallas_process_batch demo_builtins new_scraper [feature_d, None]))
            = [JStr ''D-4'']"
    by (simp add: dallas_process_batch_def an af)
  have e3: "foldl (dallas_process_batch demo_builtins) new_scraper ?fpages
            = dallas_process_batch demo_builtins new_scraper [feature_d, None]"
  proof -
    have "dallas_process_batch demo_builtins
            (dallas_process_batch demo_builtins new_scraper [feature_d, None]) [feature_d]
          = dallas_process_batch demo_builtins new_scraper [feature_d, None]"
      using seen_dallas_process_batch[of feature_d "[feature_d, None]" demo_builtins new_scraper]
      by (intro dallas_process_batch_all_seen) (simp add: d)
    then show ?thesis by simp
  qed
  have c5: "ids (permits (foldl (process_batch demo_builtins) new_scraper ?pages))
            = [JStr ''A-1'', JStr ''B-2'']"
  proof -
    have "foldl (process_batch demo_builtins) new_scraper ?pages
          = process_batch demo_builtins new_scraper [record_a, record_b]"
      by (simp add: t2)
    then show ?thesis by (simp only: e)
  qed
  have c9: "ids (permits (foldl (dallas_process_batch demo_builtins) new_scraper ?fpages))
            = [JStr ''D-4'']"
    by (simp only: e3 e2)
  show ?thesis by (intro conjI h1 t1 h2 t3 c5 h3 t4 t5 c9)
qed

lemma loop_step_data:
  assumes "tot < max_permits" and "fetch k (min 1000 (max_permits - tot)) offset = Data data"
    and "1000 \<le> length data"
    and "k' = k + 1" and "offset' = offset + 1000" and "tot' = tot + int (length data)"
    and "s' = process_batch B s data"
  shows "scrape_loop B fetch max_permits k offset tot cf s =
           scrape_loop B fetch max_permits k' offset' tot' 0 s'"
proof -
  have "data \<noteq> []" using assms(3) by auto
  then show ?thesis using assms by (subst scrape_loop.simps) (simp add: Let_def)
qed

lemma loop_step_fail:
  assumes "tot < max_permits" and "is_failure (fetch k (min 1000 (max_permits - tot)) offset)"
    and "cf + 1 < 3" and "k' = k + 1" and "offset' = offset + 1000" and "cf' = cf + 1"
  shows "scrape_loop B fetch max_permits k offset tot cf s =
           scrape_loop B fetch max_permits k' offset' tot cf' s"
  using assms
  by (subst scrape_loop.simps)
     (cases "fetch k (min 1000 (max_permits - tot)) offset"; simp)

lemma loop_step_stop:
  assumes "tot < max_permits" and "is_failure (fetch k (min 1000 (max_permits - tot)) offset)"
    and "3 \<le> cf + 1"
  shows "scrape_loop B fetch max_permits k offset tot cf s = save_partial s"
  using assms
  by (subst scrape_loop.simps)
     (cases "fetch k (min 1000 (max_permits - tot)) offset"; simp)

lemma two_batches_then_three_failures:
  assumes p1: "fetch 0 (min 1000 max_permits) 0 = Data page1" and l1: "1000 \<le> length page1"
    and p2: "fetch 1 (min 1000 (max_permits - int (length page1))) 1000 = Data page2"
    and l2: "1000 \<le> length page2"
    and more: "int (length page1) + int (length page2) < max_permits"
    and f2: "is_failure (fetch 2 (min 1000 (max_permits - (int (length page1) + int (length page2)))) 2000)"
    and f3: "is_failure (fetch 3 (min 1000 (max_permits - (int (length page1) + int (length page2)))) 3000)"
    and f4: "is_failure (fetch 4 (min 1000 (max_permits - (int (length page1) + int (length page2)))) 4000)"
  shows "scrape_loop B fetch max_permits 0 0 0 0 s = save_partial (process_batch B s (page1 @ page2))"
proof -
  let ?t = "int (length page1) + int (length page2)"
  let ?s2 = "process_batch B s (page1 @ page2)"
  have "scrape_loop B fetch max_permits 0 0 0 0 s =
        scrape_loop B fetch max_permits 1 1000 (int (length page1)) 0 (process_batch B s page1)"
    by (rule loop_step_data[where data = page1]) (use p1 l1 more in simp_all)
  also have "\<dots> = scrape_loop B fetch max_permits 2 2000 ?t 0 ?s2"
    by (rule loop_step_data[where data = page2])
       (use p2 l2 more in \<open>simp_all add: process_batch_append\<close>)
  also have "\<dots> = scrape_loop B fetch max_permits 3 3000 ?t 1 ?s2"
    by (rule loop_step_fail) (use f2 more in simp_all)
  also have "\<dots> = scrape_loop B fetch max_permits 4 4000 ?t 2 ?s2"
    by (rule loop_step_fail) (use f3 more in simp_all)
  also have "\<dots> = save_partial ?s2"
    by (rule loop_step_stop) (use f4 more in simp_all)
  finally show ?thesis .
qed

lemma loop_step_end:
  assumes "tot < max_permits" and "fetch k (min 1000 (max_permits - tot)) offset = Data []"
  shows "scrape_loop B fetch max_permits k offset tot cf s = s"
  using assms by (subst scrape_loop.simps) simp

lemma two_batches_then_exhausted:
  assumes p1: "fetch 0 (min 1000 max_permits) 0 = Data page1" and l1: "1000 \<le> length page1"
    and p2: "fetch 1 (min 1000 (max_permits - int (length page1))) 1000 = Data page2"
    and l2: "1000 \<le> length page2"
    and more: "int (length page1) + int (length page2) < max_permits"
    and e: "fetch 2 (min 1000 (max_permits - (int (length page1) + int (length page2)))) 2000 = Data []"
  shows "scrape_loop B fetch max_permits 0 0 0 0 s = process_batch B s (page1 @ page2)"
proof -
  let ?t = "int (length page1) + int (length page2)"
  let ?s2 = "process_batch B s (page1 @ page2)"
  have "scrape_loop B fetch max_permits 0 0 0 0 s =
        scrape_loop B fetch max_permits 1 1000 (int (length page1)) 0 (process_batch B s page1)"
    by (rule loop_step_data[where data = page1]) (use p1 l1 more in simp_all)
  also have "\<dots> = scrape_loop B fetch max_permits 2 2000 ?t 0 ?s2"
    by (rule loop_step_data[where data = page2])
       (use p2 l2 more in \<open>simp_all add: process_batch_append\<close>)
  also have "\<dots> = ?s2"
    by (rule loop_step_end) (use e more in simp_all)
  finally show ?thesis .
qed

lemma health_scrape_permits:
  "health (snd (scrape_permits B fetch max_permits s))
     = health (scrape_loop B fetch max_permits 0 0 0 0 s)
       @ [if permits (scrape_loop B fetch max_permits 0 0 0 0 s) \<noteq> []
          then Record_success (length (permits (scrape_loop B fetch max_permits 0 0 0 0 s)))
          else Record_failure ''No permits retrieved'']"
  by (simp add: scrape_permits_def Let_def)

lemma process_batch_keeps:
  "partial_saves (process_batch B s d) = partial_saves s"
  "health (process_batch B s d) = health s"
  unfolding process_batch_def
  by (induction d arbitrary: s) (simp_all add: add_record_def Let_def)

lemma two_pages_permits:
  assumes "page1 \<noteq> []"
  shows "permits (process_batch B new_scraper (page1 @ page2)) \<noteq> []"
    and "set (ids (permits (process_batch B new_scraper (page1 @ page2))))
           = permit_id_of B ` set (page1 @ page2)"
    and "distinct (ids (permits (process_batch B new_scraper (page1 @ page2))))"
proof -
  let ?s2 = "process_batch B new_scraper (page1 @ page2)"
  have g: "grown new_scraper ?s2" by (rule grown_process_batch)
  have "set (ids (permits new_scraper)) = seen_permit_ids new_scraper"
    by (simp add: new_scraper_def ids_def)
  with g have "set (ids (permits ?s2)) = seen_permit_ids ?s2" by (rule grown_new_ids)
  then show idset: "set (ids (permits ?s2)) = permit_id_of B ` set (page1 @ page2)"
    by (simp add: seen_process_batch new_scraper_def)
  have "set (ids (permits ?s2)) \<noteq> {}" unfolding idset using assms by simp
  then show "permits ?s2 \<noteq> []" by (auto simp: ids_def)
  show "distinct (ids (permits ?s2))"
    using grown_consistent[OF g new_scraper_consistent] by (simp add: ids_consistent_def)
qed

lemma aborted_run:
  assumes "fetch 0 (min 1000 max_permits) 0 = Data page1" and "1000 \<le> length page1"
    and "fetch 1 (min 1000 (max_permits - int (length page1))) 1000 = Data page2"
    and "1000 \<le> length page2"
    and "int (length page1) + int (length page2) < max_permits"
    and "is_failure (fetch 2 (min 1000 (max_permits - (int (length page1) + int (length page2)))) 2000)"
    and "is_failure (fetch 3 (min 1000 (max_permits - (int (length page1) + int (length page2)))) 3000)"
    and "is_failure (fetch 4 (min 1000 (max_permits - (int (length page1) + int (length page2)))) 4000)"
  shows "fst (scrape_permits B fetch max_permits new_scraper)
           = permits (process_batch B new_scraper (page1 @ page2))"
    and "partial_saves (snd (scrape_permits B fetch max_permits new_scraper))
           = [permits (process_batch B new_scraper (page1 @ page2))]"
    and "health (snd (scrape_permits B fetch max_permits new_scraper))
           = [Record_success (length (permits (process_batch B new_scraper (page1 @ page2))))]"
proof -
  let ?s2 = "process_batch B new_scraper (page1 @ page2)"
  have loop: "scrape_loop B fetch max_permits 0 0 0 0 new_scraper = save_partial ?s2"
    using assms by (rule two_batches_then_three_failures)
  have "page1 \<noteq> []" using assms(2) by auto
  then have ne: "permits ?s2 \<noteq> []" by (rule two_pages_permits)
  have ps: "permits (save_partial ?s2) = permits ?s2" by (simp add: save_partial_def)
  have "partial_saves ?s2 = []" "health ?s2 = []"
    by (simp_all add: process_batch_keeps new_scraper_def)
  then have sv: "partial_saves (save_partial ?s2) = [permits ?s2]"
    and hl: "health (save_partial ?s2) = []"
    using ne by (simp_all add: save_partial_def)
  show "fst (scrape_permits B fetch max_permits new_scraper) = permits ?s2"
    by (simp add: permits_scrape_permits loop ps)
  show "partial_saves (snd (scrape_permits B fetch max_permits new_scraper)) = [permits ?s2]"
    by (simp add: permits_scrape_permits loop sv)
  show "health (snd (scrape_permits B fetch max_permits new_scraper))
          = [Record_success (length (permits ?s2))]"
    using ne by (simp add: health_scrape_permits loop ps hl)
qed

lemma completed_run:
  assumes "fetch 0 (min 1000 max_permits) 0 = Data page1" and "1000 \<le> length page1"
    and "fetch 1 (min 1000 (max_permits - int (length page1))) 1000 = Data page2"
    and "1000 \<le> length page2"
    and "int (length page1) + int (length page2) < max_permits"
    and "fetch 2 (min 1000 (max_permits - (int (length page1) + int (length page2)))) 2000 = Data []"
  shows "fst (scrape_permits B fetch max_permits new_scraper)
           = permits (process_batch B new_scraper (page1 @ page2))"
    and "partial_saves (snd (scrape_permits B fetch max_permits new_scraper)) = []"
    and "health (snd (scrape_permits B fetch max_permits new_scraper))
           = [Record_success (length (permits (process_batch B new_scraper (page1 @ page2))))]"
proof -
  let ?s2 = "process_batch B new_scraper (page1 @ page2)"
  have loop: "scrape_loop B fetch max_permits 0 0 0 0 new_scraper = ?s2"
    using assms by (rule two_batches_then_exhausted)
  have "page1 \<noteq> []" using assms(2) by auto
  then have ne: "permits ?s2 \<noteq> []" by (rule two_pages_permits)
  have k: "partial_saves ?s2 = []" "health ?s2 = []"
    by (simp_all add: process_batch_keeps new_scraper_def)
  show "fst (scrape_permits B fetch max_permits new_scraper) = permits ?s2"
    by (simp add: permits_scrape_permits loop)
  show "partial_saves (snd (scrape_permits B fetch max_permits new_scraper)) = []"
    by (simp add: permits_scrape_permits loop k)
  show "health (snd (scrape_permits B fetch max_permits new_scraper))
          = [Record_success (length (permits ?s2))]"
    using ne by (simp add: health_scrape_permits loop k)
qed

lemma process_batch_replicate:
  "0 < n \<Longrightarrow> process_batch B s (replicate n r) = add_record B s r"
proof (induction n arbitrary: s)
  case 0
  then show ?case by simp
next
  case (Suc n)
  have again: "add_record B (add_record B s r) r = add_record B s r"
    by (rule add_record_seen) (simp add: seen_add_record)
  show ?case
  proof (cases "n = 0")
    case True
    then show ?thesis by (simp add: process_batch_def)
  next
    case False
    then have "process_batch B (add_record B s r) (replicate n r) = add_record B (add_record B s r) r"
      using Suc.IH by simp
    then show ?thesis by (simp add: process_batch_def again)
  qed
qed

lemma demo_two_pages:
  "permits (process_batch demo_builtins new_scraper
      (replicate 1000 record_a @ replicate 1000 record_b))
     = permits (add_record demo_builtins (add_record demo_builtins new_scraper record_a) record_b)"
  "ids (permits (add_record demo_builtins (add_record demo_builtins new_scraper record_a) record_b))
     = [JStr ''A-1'', JStr ''B-2'']"
  "length (permits (add_record demo_builtins (add_record demo_builtins new_scraper record_a)
      record_b)) = 2"
proof -
  show "permits (process_batch demo_builtins new_scraper
      (replicate 1000 record_a @ replicate 1000 record_b))
     = permits (add_record demo_builtins (add_record demo_builtins new_scraper record_a) record_b)"
    by (simp add: process_batch_append process_batch_replicate)
  show "ids (permits (add_record demo_builtins (add_record demo_builtins new_scraper record_a) record_b))
     = [JStr ''A-1'', JStr ''B-2'']"
    by (simp add: add_record_def permit_id_of_def py_or_def get_def
        record_a_def record_b_def new_scraper_def ids_def Let_def)
  show "length (permits (add_record demo_builtins (add_record demo_builtins new_scraper record_a)
      record_b)) = 2"
    by (simp add: add_record_def permit_id_of_def py_or_def get_def
        record_a_def record_b_def new_scraper_def Let_def)
qed

text \<open>
  C7, as the code has it. On a new scraper, when the first two fetches return full batches
  (at least \<open>batch_size = 1000\<close> records each, fewer than \<open>max_permits\<close> together) and the next
  three fetches fail, \<open>scrape_permits\<close> stops and returns the permits collected so far: they
  are exactly the permits of the records of the two batches, one per identifier, and not the
  empty list. The value returned is the plain list \<open>self.permits\<close>, with no partial mark: it
  is the value, and the health check gets the same \<open>record_success\<close>, that a run returns
  which ends normally after the same two batches. The one sign of the abort is the call of
  \<open>save_partial_results\<close> with the collected permits, made before the return.
\<close>

theorem partial_results_kept:
  assumes "fetch 0 (min 1000 max_permits) 0 = Data page1" and "1000 \<le> length page1"
    and "fetch 1 (min 1000 (max_permits - int (length page1))) 1000 = Data page2"
    and "1000 \<le> length page2"
    and "int (length page1) + int (length page2) < max_permits"
    and "is_failure (fetch 2 (min 1000 (max_permits - (int (length page1) + int (length page2)))) 2000)"
    and "is_failure (fetch 3 (min 1000 (max_permits - (int (length page1) + int (length page2)))) 3000)"
    and "is_failure (fetch 4 (min 1000 (max_permits - (int (length page1) + int (length page2)))) 4000)"
  shows "fst (scrape_permits B fetch max_permits new_scraper)
           = permits (process_batch B new_scraper (page1 @ page2))
       \<and> partial_saves (snd (scrape_permits B fetch max_permits new_scraper))
           = [permits (process_batch B new_scraper (page1 @ page2))]
       \<and> fst (scrape_permits B fetch max_permits new_scraper) \<noteq> []
       \<and> set (ids (fst (scrape_permits B fetch max_permits new_scraper)))
           = permit_id_of B ` set (page1 @ page2)
       \<and> distinct (ids (fst (scrape_permits B fetch max_permits new_scraper)))
       \<and> health (snd (scrape_permits B fetch max_permits new_scraper))
           = [Record_success (length (fst (scrape_permits B fetch max_permits new_scraper)))]
       \<and> (fetch' 0 (min 1000 max_permits) 0 = Data page1
          \<and> fetch' 1 (min 1000 (max_permits - int (length page1))) 1000 = Data page2
          \<and> fetch' 2 (min 1000 (max_permits - (int (length page1) + int (length page2)))) 2000
              = Data [] \<longrightarrow>
            fst (scrape_permits B fetch' max_permits new_scraper)
              = fst (scrape_permits B fetch max_permits new_scraper)
            \<and> health (snd (scrape_permits B fetch' max_permits new_scraper))
              = health (snd (scrape_permits B fetch max_permits new_scraper))
            \<and> partial_saves (snd (scrape_permits B fetch' max_permits new_scraper)) = [])"
proof -
  let ?s2 = "process_batch B new_scraper (page1 @ page2)"
  note A = aborted_run[OF assms, of B]
  have "page1 \<noteq> []" using assms(2) by auto
  note P = two_pages_permits[OF this, of B page2]
  have c: "fst (scrape_permits B fetch' max_permits new_scraper)
              = fst (scrape_permits B fetch max_permits new_scraper)
            \<and> health (snd (scrape_permits B fetch' max_permits new_scraper))
              = health (snd (scrape_permits B fetch max_permits new_scraper))
            \<and> partial_saves (snd (scrape_permits B fetch' max_permits new_scraper)) = []"
    if "fetch' 0 (min 1000 max_permits) 0 = Data page1"
      "fetch' 1 (min 1000 (max_permits - int (length page1))) 1000 = Data page2"
      "fetch' 2 (min 1000 (max_permits - (int (length page1) + int (length page2)))) 2000
         = Data []"
    using completed_run[OF that(1) assms(2) that(2) assms(4) assms(5) that(3), of B] A
    by simp
  show ?thesis using A P c by simp
qed

theorem partial_results_kept_witness:
  "two_batches_then_errors 0 (min 1000 5000) 0 = Data (replicate 1000 record_a)
   \<and> 1000 \<le> length (replicate 1000 record_a)
   \<and> two_batches_then_errors 1 (min 1000 (5000 - int (length (replicate 1000 record_a)))) 1000
        = Data (replicate 1000 record_b)
   \<and> 1000 \<le> length (replicate 1000 record_b)
   \<and> int (length (replicate 1000 record_a)) + int (length (replicate 1000 record_b)) < 5000
   \<and> is_failure (two_batches_then_errors 2 1000 2000)
   \<and> is_failure (two_batches_then_errors 3 1000 3000)
   \<and> is_failure (two_batches_then_errors 4 1000 4000)
   \<and> two_batches_then_end 0 (min 1000 5000) 0 = Data (replicate 1000 record_a)
   \<and> two_batches_then_end 1 (min 1000 (5000 - int (length (replicate 1000 record_a)))) 1000
        = Data (replicate 1000 record_b)
   \<and> two_batches_then_end 2 1000 2000 = Data []
   \<and> ids (fst (scrape_permits demo_builtins two_batches_then_errors 5000 new_scraper))
        = [JStr ''A-1'', JStr ''B-2'']
   \<and> partial_saves (snd (scrape_permits demo_builtins two_batches_then_errors 5000 new_scraper))
        = [fst (scrape_permits demo_builtins two_batches_then_errors 5000 new_scraper)]
   \<and> health (snd (scrape_permits demo_builtins two_batches_then_errors 5000 new_scraper))
        = [Record_success 2]
   \<and> fst (scrape_permits demo_builtins two_batches_then_end 5000 new_scraper)
        = fst (scrape_permits demo_builtins two_batches_then_errors 5000 new_scraper)"
proof -
  let ?a = "replicate 1000 record_a" and ?b = "replicate 1000 record_b"
  have h1: "two_batches_then_errors 0 (min 1000 5000) 0 = Data ?a" by simp
  have h2: "1000 \<le> length ?a" by simp
  have h3: "two_batches_then_errors 1 (min 1000 (5000 - int (length ?a))) 1000 = Data ?b" by simp
  have h4: "1000 \<le> length ?b" by simp
  have h5: "int (length ?a) + int (length ?b) < 5000" by simp
  have h6: "is_failure (two_batches_then_errors 2 (min 1000 (5000 - (int (length ?a) + int (length ?b)))) 2000)"
    by simp
  have h7: "is_failure (two_batches_then_errors 3 (min 1000 (5000 - (int (length ?a) + int (length ?b)))) 3000)"
    by simp
  have h8: "is_failure (two_batches_then_errors 4 (min 1000 (5000 - (int (length ?a) + int (length ?b)))) 4000)"
    by simp
  have e1: "two_batches_then_end 0 (min 1000 5000) 0 = Data ?a" by simp
  have e2: "two_batches_then_end 1 (min 1000 (5000 - int (length ?a))) 1000 = Data ?b" by simp
  have e3: "two_batches_then_end 2 (min 1000 (5000 - (int (length ?a) + int (length ?b)))) 2000
              = Data []" by simp
  note T = partial_results_kept[OF h1 h2 h3 h4 h5 h6 h7 h8, of demo_builtins two_batches_then_end]
  have r0: "fst (scrape_permits demo_builtins two_batches_then_errors 5000 new_scraper)
        = permits (process_batch demo_builtins new_scraper (?a @ ?b))"
    using T by blast
  have r1: "ids (fst (scrape_permits demo_builtins two_batches_then_errors 5000 new_scraper))
        = [JStr ''A-1'', JStr ''B-2'']"
    by (simp only: r0 demo_two_pages)
  have r2: "partial_saves (snd (scrape_permits demo_builtins two_batches_then_errors 5000 new_scraper))
        = [fst (scrape_permits demo_builtins two_batches_then_errors 5000 new_scraper)]"
    using T by (simp only: r0)
  have "health (snd (scrape_permits demo_builtins two_batches_then_errors 5000 new_scraper))
        = [Record_success (length (fst (scrape_permits demo_builtins two_batches_then_errors 5000
             new_scraper)))]"
    using T by blast
  then have r3: "health (snd (scrape_permits demo_builtins two_batches_then_errors 5000 new_scraper))
        = [Record_success 2]"
    by (simp only: r0 demo_two_pages)
  have r4: "fst (scrape_permits demo_builtins two_batches_then_end 5000 new_scraper)
        = fst (scrape_permits demo_builtins two_batches_then_errors 5000 new_scraper)"
    using T e1 e2 e3 by blast
  show ?thesis by (intro conjI r1 r2 r3 r4) simp_all
qed

text \<open>The claim as stated fails: after two full batches and three failed fetches the value
  returned carries no partial mark. It is the list of the two permits, the value that the
  run returns which ends normally after the same two batches, and the health check records
  a success with the same count in both runs.\<close>

theorem partial_result_not_marked:
  "is_failure (two_batches_then_errors 2 1000 2000)
   \<and> is_failure (two_batches_then_errors 3 1000 3000)
   \<and> is_failure (two_batches_then_errors 4 1000 4000)
   \<and> two_batches_then_end 2 1000 2000 = Data []
   \<and> ids (fst (scrape_permits demo_builtins two_batches_then_errors 5000 new_scraper))
        = [JStr ''A-1'', JStr ''B-2'']
   \<and> fst (scrape_permits demo_builtins two_batches_then_errors 5000 new_scraper)
        = fst (scrape_permits demo_builtins two_batches_then_end 5000 new_scraper)
   \<and> health (snd (scrape_permits demo_builtins two_batches_then_errors 5000 new_scraper))
        = [Record_success 2]
   \<and> health (snd (scrape_permits demo_builtins two_batches_then_end 5000 new_scraper))
        = [Record_success 2]"
proof -
  let ?a = "replicate 1000 record_a" and ?b = "replicate 1000 record_b"
  have h1: "two_batches_then_errors 0 (min 1000 5000) 0 = Data ?a" by simp
  have h2: "1000 \<le> length ?a" by simp
  have h3: "two_batches_then_errors 1 (min 1000 (5000 - int (length ?a))) 1000 = Data ?b" by simp
  have h4: "1000 \<le> length ?b" by simp
  have h5: "int (length ?a) + int (length ?b) < 5000" by simp
  have h6: "is_failure (two_batches_then_errors 2 (min 1000 (5000 - (int (length ?a) + int (length ?b)))) 2000)"
    by simp
  have h7: "is_failure (two_batches_then_errors 3 (min 1000 (5000 - (int (length ?a) + int (length ?b)))) 3000)"
    by simp
  have h8: "is_failure (two_batches_then_errors 4 (min 1000 (5000 - (int (length ?a) + int (length ?b)))) 4000)"
    by simp
  have e1: "two_batches_then_end 0 (min 1000 5000) 0 = Data ?a" by simp
  have e2: "two_batches_then_end 1 (min 1000 (5000 - int (length ?a))) 1000 = Data ?b" by simp
  have e3: "two_batches_then_end 2 (min 1000 (5000 - (int (length ?a) + int (length ?b)))) 2000
              = Data []" by simp
  note A = aborted_run[OF h1 h2 h3 h4 h5 h6 h7 h8, of demo_builtins]
  note C = completed_run[OF e1 h2 e2 h4 h5 e3, of demo_builtins]
  have r1: "ids (fst (scrape_permits demo_builtins two_batches_then_errors 5000 new_scraper))
        = [JStr ''A-1'', JStr ''B-2'']"
    by (simp only: A(1,3) demo_two_pages)
  have r2: "fst (scrape_permits demo_builtins two_batches_then_errors 5000 new_scraper)
        = fst (scrape_permits demo_builtins two_batches_then_end 5000 new_scraper)"
    by (simp only: A(1) C(1))
  have r3: "health (snd (scrape_permits demo_builtins two_batches_then_errors 5000 new_scraper))
        = [Record_success 2]"
    by (simp only: A(1,3) demo_two_pages)
  have r4: "health (snd (scrape_permits demo_builtins two_batches_then_end 5000 new_scraper))
        = [Record_success 2]"
    by (simp only: C(3) A(1) demo_two_pages)
  show ?thesis by (intro conjI r1 r2 r3 r4) simp_all
qed

text \<open>
  C9, as the code has it. The value of a permit is 0 when the raw \<open>cost\<close> is absent or falsy
  and when its conversion raises. The issue date is the text \<open>N/A\<close> when the raw date is
  absent or falsy and when it does not parse, and otherwise the parsed date rendered by
  \<open>strftime('%Y-%m-%d')\<close>. The status is \<open>N/A\<close> when the raw status is absent or falsy and the
  raw status otherwise. The sentinel is \<open>N/A\<close>, not \<open>unknown\<close>.
\<close>

theorem normalization_defaults:
  "(\<not> truthy (get r ''cost'') \<longrightarrow> p_value (make_permit B i r) = 0)
   \<and> (\<forall>s. get r ''cost'' = JStr s \<and>
           float_of_str B (remove_char CHR '','' (remove_char CHR ''$'' s)) = None \<longrightarrow>
         p_value (make_permit B i r) = 0)
   \<and> (\<forall>x. get r ''cost'' = JNum x \<and> float_of_num B x = None \<longrightarrow>
         p_value (make_permit B i r) = 0)
   \<and> (\<not> truthy (get r ''issued_date'') \<longrightarrow> p_issued_date (make_permit B i r) = ''N/A'')
   \<and> (parse_date B (py_str B (get r ''issued_date'')) = None \<longrightarrow>
         p_issued_date (make_permit B i r) = ''N/A'')
   \<and> (\<forall>dt. truthy (get r ''issued_date'') \<and>
            parse_date B (py_str B (get r ''issued_date'')) = Some dt \<longrightarrow>
         p_issued_date (make_permit B i r) = strftime_ymd B dt)
   \<and> (\<not> truthy (get r ''status'') \<longrightarrow> p_status (make_permit B i r) = JStr ''N/A'')
   \<and> (truthy (get r ''status'') \<longrightarrow> p_status (make_permit B i r) = get r ''status'')
   \<and> (permit_id_of B r \<notin> seen_permit_ids s \<longrightarrow>
         permits (add_record B s r) = permits s @ [make_permit B (permit_id_of B r) r])"
proof -
  have v0: "p_value (make_permit B i r) = 0" if "\<not> truthy (get r ''cost'')"
    using that by (simp add: make_permit_def py_or_def parse_cost_def)
  have v1: "p_value (make_permit B i r) = 0"
    if "get r ''cost'' = JStr s" "float_of_str B (remove_char CHR '','' (remove_char CHR ''$'' s)) = None"
    for s
    using that by (simp add: make_permit_def py_or_def parse_cost_def)
  have v2: "p_value (make_permit B i r) = 0"
    if "get r ''cost'' = JNum x" "float_of_num B x = None" for x
    using that by (simp add: make_permit_def py_or_def parse_cost_def)
  have d0: "p_issued_date (make_permit B i r) = ''N/A''" if "\<not> truthy (get r ''issued_date'')"
    using that by (simp add: make_permit_def format_date_def)
  have d1: "p_issued_date (make_permit B i r) = ''N/A''"
    if "parse_date B (py_str B (get r ''issued_date'')) = None"
    using that by (simp add: make_permit_def format_date_def)
  have d2: "p_issued_date (make_permit B i r) = strftime_ymd B dt"
    if "truthy (get r ''issued_date'')" "parse_date B (py_str B (get r ''issued_date'')) = Some dt"
    for dt
    using that by (simp add: make_permit_def format_date_def)
  have s0: "p_status (make_permit B i r) = JStr ''N/A''" if "\<not> truthy (get r ''status'')"
    using that by (simp add: make_permit_def py_or_def)
  have s1: "p_status (make_permit B i r) = get r ''status''" if "truthy (get r ''status'')"
    using that by (simp add: make_permit_def py_or_def)
  have a: "permits (add_record B s r) = permits s @ [make_permit B (permit_id_of B r) r]"
    if "permit_id_of B r \<notin> seen_permit_ids s"
    using that by (simp add: add_record_def Let_def)
  show ?thesis using v0 v1 v2 d0 d1 d2 s0 s1 a by blast
qed

theorem normalization_defaults_witness:
  "\<not> truthy (get Map.empty ''cost'') \<and> p_value (make_permit demo_builtins (JStr '''') Map.empty) = 0
   \<and> get record_b ''cost'' = JStr ''n/a''
   \<and> float_of_str demo_builtins (remove_char CHR '','' (remove_char CHR ''$'' ''n/a'')) = None
   \<and> p_value (make_permit demo_builtins (JStr ''B-2'') record_b) = 0
   \<and> parse_date demo_builtins (py_str demo_builtins (get record_b ''issued_date'')) = None
   \<and> p_issued_date (make_permit demo_builtins (JStr ''B-2'') record_b) = ''N/A''
   \<and> truthy (get record_a ''issued_date'')
   \<and> parse_date demo_builtins (py_str demo_builtins (get record_a ''issued_date'')) = Some ''2024-05-01''
   \<and> p_issued_date (make_permit demo_builtins (JStr ''A-1'') record_a) = ''2024-05-01''
   \<and> \<not> truthy (get record_a ''status'')
   \<and> p_status (make_permit demo_builtins (JStr ''A-1'') record_a) = JStr ''N/A''
   \<and> truthy (get record_b ''status'')
   \<and> p_status (make_permit demo_builtins (JStr ''B-2'') record_b) = JStr ''Issued''
   \<and> get [''cost'' \<mapsto> JNum 7] ''cost'' = JNum 7
   \<and> float_of_num (demo_builtins\<lparr>float_of_num := \<lambda>x. None\<rparr>) 7 = None
   \<and> p_value (make_permit (demo_builtins\<lparr>float_of_num := \<lambda>x. None\<rparr>) (JStr '''')
         [''cost'' \<mapsto> JNum 7]) = 0
   \<and> permit_id_of demo_builtins record_a \<notin> seen_permit_ids new_scraper
   \<and> permits (add_record demo_builtins new_scraper record_a)
        = permits new_scraper @ [make_permit demo_builtins (permit_id_of demo_builtins record_a) record_a]"
proof -
  have n1: "get [''cost'' \<mapsto> JNum 7] ''cost'' = JNum 7" by (simp add: get_def)
  have n2: "float_of_num (demo_builtins\<lparr>float_of_num := \<lambda>x. None\<rparr>) 7 = None" by simp
  have n3: "p_value (make_permit (demo_builtins\<lparr>float_of_num := \<lambda>x. None\<rparr>) (JStr '''')
         [''cost'' \<mapsto> JNum 7]) = 0"
    using normalization_defaults[of "[''cost'' \<mapsto> JNum 7]"
        "demo_builtins\<lparr>float_of_num := \<lambda>x. None\<rparr>" "JStr ''''" new_scraper] n1 n2
    by blast
  have a1: "permit_id_of demo_builtins record_a \<notin> seen_permit_ids new_scraper"
    by (simp add: new_scraper_def)
  have a2: "permits (add_record demo_builtins new_scraper record_a)
        = permits new_scraper @ [make_permit demo_builtins (permit_id_of demo_builtins record_a) record_a]"
    using normalization_defaults[of record_a demo_builtins "JStr ''A-1''" new_scraper] a1
    by blast
  have c0: "\<not> truthy (get Map.empty ''cost'')" by (simp add: get_def)
  have c1: "get record_b ''cost'' = JStr ''n/a''" by (simp add: get_def record_b_def)
  have c2: "float_of_str demo_builtins (remove_char CHR '','' (remove_char CHR ''$'' ''n/a'')) = None"
    by (simp add: demo_builtins_def remove_char_def)
  have d1: "parse_date demo_builtins (py_str demo_builtins (get record_b ''issued_date'')) = None"
    by (simp add: parse_date_def get_def record_b_def demo_builtins_def)
  have d2: "truthy (get record_a ''issued_date'')" by (simp add: get_def record_a_def)
  have d3: "parse_date demo_builtins (py_str demo_builtins (get record_a ''issued_date''))
              = Some ''2024-05-01''"
    by (simp add: parse_date_def get_def record_a_def demo_builtins_def replace_char_def)
  have s0: "\<not> truthy (get record_a ''status'')" by (simp add: get_def record_a_def)
  have s1: "truthy (get record_b ''status'')" by (simp add: get_def record_b_def)
  have sb: "get record_b ''status'' = JStr ''Issued''" by (simp add: get_def record_b_def)
  have sf: "strftime_ymd demo_builtins ''2024-05-01'' = ''2024-05-01''"
    by (simp add: demo_builtins_def)
  note E = normalization_defaults[of Map.empty demo_builtins "JStr ''''" new_scraper]
  note A = normalization_defaults[of record_a demo_builtins "JStr ''A-1''" new_scraper]
  note Bt = normalization_defaults[of record_b demo_builtins "JStr ''B-2''" new_scraper]
  have r0: "p_value (make_permit demo_builtins (JStr '''') Map.empty) = 0" using E c0 by blast
  have r1: "p_value (make_permit demo_builtins (JStr ''B-2'') record_b) = 0" using Bt c1 c2 by blast
  have r2: "p_issued_date (make_permit demo_builtins (JStr ''B-2'') record_b) = ''N/A''"
    using Bt d1 by blast
  have r3: "p_issued_date (make_permit demo_builtins (JStr ''A-1'') record_a)
              = strftime_ymd demo_builtins ''2024-05-01''"
    using A d2 d3 by blast
  have r4: "p_status (make_permit demo_builtins (JStr ''A-1'') record_a) = JStr ''N/A''"
    using A s0 by blast
  have r5: "p_status (make_permit demo_builtins (JStr ''B-2'') record_b) = get record_b ''status''"
    using Bt s1 by blast
  have r3': "p_issued_date (make_permit demo_builtins (JStr ''A-1'') record_a) = ''2024-05-01''"
    using r3 by (simp only: sf)
  have r5': "p_status (make_permit demo_builtins (JStr ''B-2'') record_b) = JStr ''Issued''"
    using r5 by (simp only: sb)
  show ?thesis
    by (intro conjI c0 r0 c1 c2 r1 d1 r2 d2 d3 r3' s0 r4 s1 r5' n1 n2 n3 a1 a2)
qed

text \<open>The claim as stated fails: a record without a status gets the status \<open>N/A\<close>, and a
  record without a date, or with one that does not parse, gets the date \<open>N/A\<close>.\<close>

theorem sentinel_is_not_unknown:
  "get record_a ''status'' = JNull
   \<and> p_status (make_permit demo_builtins (JStr ''A-1'') record_a) = JStr ''N/A''
   \<and> p_status (make_permit demo_builtins (JStr ''A-1'') record_a) \<noteq> JStr ''unknown''
   \<and> get Map.empty ''issued_date'' = JNull
   \<and> p_issued_date (make_permit demo_builtins (JStr '''') Map.empty) = ''N/A''
   \<and> p_issued_date (make_permit demo_builtins (JStr '''') Map.empty) \<noteq> ''unknown''
   \<and> p_issued_date (make_permit demo_builtins (JStr ''B-2'') record_b) = ''N/A''"
  by (simp add: make_permit_def py_or_def get_def record_a_def record_b_def format_date_def
      parse_date_def demo_builtins_def)

section \<open>Properties of the inline retry loop of the Snohomish scraper\<close>

lemma failing_calls_rec:
  "a < k \<Longrightarrow> failing_calls jitter a k
     = Get a # Wait (jitter a * 2 ^ nat a) # failing_calls jitter (a + 1) k"
  by (simp add: failing_calls_def upto_rec1[of a "k - 1"])

lemma failing_calls_same: "failing_calls jitter k k = [Get k]"
  by (simp add: failing_calls_def)

lemma retry_loop_all_fail:
  "a < m \<Longrightarrow> (\<And>i. a \<le> i \<Longrightarrow> i < m \<Longrightarrow> no_rows (fetch i)) \<Longrightarrow>
   retry_loop B fetch jitter m [a..m - 1] calls = ([], calls @ failing_calls jitter a (m - 1))"
proof (induction "nat (m - 1 - a)" arbitrary: a calls)
  case 0
  then have am: "a = m - 1" by simp
  have f: "no_rows (fetch (m - 1))" using 0 am by simp
  show ?case using f unfolding am
    by (cases "fetch (m - 1)") (simp_all add: failing_calls_same Let_def)
next
  case (Suc n)
  then have lt: "a < m - 1" by linarith
  have up: "[a..m - 1] = a # [a + 1..m - 1]" using lt by (simp add: upto_rec1)
  have f: "no_rows (fetch a)" using Suc.prems lt by simp
  have IH: "retry_loop B fetch jitter m [a + 1..m - 1] calls' =
      ([], calls' @ failing_calls jitter (a + 1) (m - 1))" for calls'
    using Suc.hyps(1)[of "a + 1" calls'] Suc.hyps(2) Suc.prems lt by simp
  show ?case unfolding up using f lt
    by (cases "fetch a") (simp_all add: IH failing_calls_rec Let_def)
qed

lemma failing_calls_gets:
  "a \<le> k \<Longrightarrow> filter is_get (failing_calls jitter a k) = map Get [a..k]"
proof (induction "nat (k - a)" arbitrary: a)
  case 0
  then have "a = k" by simp
  then show ?case by (simp add: failing_calls_same)
next
  case (Suc n)
  then have lt: "a < k" by linarith
  have "filter is_get (failing_calls jitter (a + 1) k) = map Get [a + 1..k]"
    using Suc.hyps(1)[of "a + 1"] Suc.hyps(2) lt by simp
  then show ?case using lt by (simp add: failing_calls_rec upto_rec1[of a k])
qed

lemma failing_calls_waits:
  "a \<le> k \<Longrightarrow> filter (\<lambda>c. \<not> is_get c) (failing_calls jitter a k)
     = map (\<lambda>i. Wait (jitter i * 2 ^ nat i)) [a..k - 1]"
proof (induction "nat (k - a)" arbitrary: a)
  case 0
  then have "a = k" by simp
  then show ?case by (simp add: failing_calls_same)
next
  case (Suc n)
  then have lt: "a < k" by linarith
  have "filter (\<lambda>c. \<not> is_get c) (failing_calls jitter (a + 1) k)
          = map (\<lambda>i. Wait (jitter i * 2 ^ nat i)) [a + 1..k - 1]"
    using Suc.hyps(1)[of "a + 1"] Suc.hyps(2) lt by simp
  then show ?case using lt by (simp add: failing_calls_rec upto_rec1[of a "k - 1"])
qed

text \<open>
  The Snohomish scraper does not go through \<open>retry_with_backoff\<close>; it has a loop of its own.
  When every attempt fails (a \<open>requests\<close> exception, any other exception, or a page without
  table rows), that loop makes \<open>max_retries\<close> requests (3 in the source), sleeps
  \<open>u * 2 ^ attempt\<close> seconds after each failed attempt but the last, with \<open>u\<close> drawn by
  \<open>random.uniform(1, 3)\<close>, and returns the empty list of leads.
\<close>

lemma snohomish_inline_retry:
  assumes "1 \<le> max_retries" and "\<forall>i. 0 \<le> i \<and> i < max_retries \<longrightarrow> no_rows (fetch i)"
  shows "retry_loop B fetch jitter max_retries [0..max_retries - 1] []
           = ([], failing_calls jitter 0 (max_retries - 1))
       \<and> filter is_get (failing_calls jitter 0 (max_retries - 1)) = map Get [0..max_retries - 1]
       \<and> length (filter is_get (failing_calls jitter 0 (max_retries - 1))) = nat max_retries
       \<and> filter (\<lambda>c. \<not> is_get c) (failing_calls jitter 0 (max_retries - 1))
           = map (\<lambda>i. Wait (jitter i * 2 ^ nat i)) [0..max_retries - 2]
       \<and> (max_retries = 3 \<and> lower city_name = ''snohomish'' \<longrightarrow>
            get_leads_for_city B fetch jitter city_name
              = ([], [Get 0, Wait (jitter 0 * 1), Get 1, Wait (jitter 1 * 2), Get 2]))"
proof -
  have a: "retry_loop B fetch jitter max_retries [0..max_retries - 1] []
           = ([], failing_calls jitter 0 (max_retries - 1))"
    using retry_loop_all_fail[of 0 max_retries fetch B jitter "[]"] assms by simp
  have g: "filter is_get (failing_calls jitter 0 (max_retries - 1)) = map Get [0..max_retries - 1]"
    using assms(1) by (intro failing_calls_gets) simp
  have l: "length (filter is_get (failing_calls jitter 0 (max_retries - 1))) = nat max_retries"
    using assms(1) by (simp add: g)
  have w: "filter (\<lambda>c. \<not> is_get c) (failing_calls jitter 0 (max_retries - 1))
           = map (\<lambda>i. Wait (jitter i * 2 ^ nat i)) [0..max_retries - 2]"
    using failing_calls_waits[of 0 "max_retries - 1" jitter] assms(1) by simp
  have e: "failing_calls jitter 0 2 = [Get 0, Wait (jitter 0 * 1), Get 1, Wait (jitter 1 * 2), Get 2]"
    by (simp add: failing_calls_def upto.simps)
  have c: "get_leads_for_city B fetch jitter city_name
              = ([], [Get 0, Wait (jitter 0 * 1), Get 1, Wait (jitter 1 * 2), Get 2])"
    if "max_retries = 3" "lower city_name = ''snohomish''"
    using a that e by (simp add: get_leads_for_city_def)
  show ?thesis using a g l w c by blast
qed

lemma snohomish_inline_retry_example:
  "get_leads_for_city demo_builtins always_request_error falling_jitter ''Snohomish''
     = ([], [Get 0, Wait 3, Get 1, Wait 2, Get 2])
   \<and> get_leads_for_city demo_builtins always_unexpected_error unit_jitter ''snohomish''
     = ([], [Get 0, Wait 1, Get 1, Wait 2, Get 2])"
  by (simp add: get_leads_for_city_def lower_def lower_char_def upto.simps Let_def)


section \<open>Properties of the Retry Primitive\<close>

lemma failing_invocations_rec:
  "a < k \<Longrightarrow> failing_invocations d a k
     = Invoke a # Backoff (d * real a) # failing_invocations d (Suc a) k"
  by (simp add: failing_invocations_def upt_conv_Cons)

lemma failing_invocations_same: "failing_invocations d k k = [Invoke k]"
  by (simp add: failing_invocations_def)

lemma retry_attempts_stop:
  "a \<le> k \<Longrightarrow> k \<le> a + left \<Longrightarrow>
   (\<And>j. a \<le> j \<Longrightarrow> j < k \<Longrightarrow> transient_failure transient (operation j)) \<Longrightarrow>
   k < a + left \<Longrightarrow> \<not> transient_failure transient (operation k) \<Longrightarrow>
   retry_attempts operation transient d left a calls
     = (operation k, calls @ failing_invocations d a k)"
proof (induction left arbitrary: a calls)
  case 0
  then show ?case by simp
next
  case (Suc left)
  show ?case
  proof (cases "a = k")
    case True
    then show ?thesis using Suc.prems(5)
      by (auto simp: transient_failure_def failing_invocations_same split: sum.splits)
  next
    case False
    then have lt: "a < k" using Suc.prems(1) by simp
    then have t: "transient_failure transient (operation a)" using Suc.prems(3) by simp
    have "retry_attempts operation transient d left (Suc a) calls'
          = (operation k, calls' @ failing_invocations d (Suc a) k)" for calls'
      using Suc.IH[of "Suc a" calls'] Suc.prems lt by simp
    then show ?thesis using t lt
      by (auto simp: transient_failure_def failing_invocations_rec split: sum.splits)
  qed
qed

lemma retry_attempts_exhausted:
  "(\<And>j. a \<le> j \<Longrightarrow> j < a + left \<Longrightarrow> transient_failure transient (operation j)) \<Longrightarrow>
   retry_attempts operation transient d left a calls
     = (operation (a + left), calls @ failing_invocations d a (a + left))"
proof (induction left arbitrary: a calls)
  case 0
  then show ?case by (simp add: failing_invocations_same)
next
  case (Suc left)
  have t: "transient_failure transient (operation a)" using Suc.prems[of a] by simp
  have "retry_attempts operation transient d left (Suc a) calls'
          = (operation (Suc a + left), calls' @ failing_invocations d (Suc a) (Suc a + left))"
    for calls'
    using Suc.IH[of "Suc a" calls'] Suc.prems by simp
  then show ?case using t
    by (auto simp: transient_failure_def failing_invocations_rec split: sum.splits)
qed

lemma retry_until:
  assumes "1 \<le> k" and "k \<le> max_retries + 1"
    and "\<forall>j. 1 \<le> j \<and> j < k \<longrightarrow> transient_failure transient (operation j)"
    and "k = max_retries + 1 \<or> \<not> transient_failure transient (operation k)"
  shows "retry_with_backoff max_retries initial_delay transient operation
           = (operation k, failing_invocations initial_delay 1 k)"
proof (cases "k = max_retries + 1")
  case True
  show ?thesis unfolding retry_with_backoff_def
    using retry_attempts_exhausted[of 1 max_retries transient operation initial_delay "[]"]
      assms(3) True by simp
next
  case False
  then have "k < 1 + max_retries" "\<not> transient_failure transient (operation k)"
    using assms(2,4) by simp_all
  then show ?thesis unfolding retry_with_backoff_def
    using retry_attempts_stop[of 1 k max_retries transient operation initial_delay "[]"]
      assms(1,2,3) by simp
qed

lemma failing_invocations_invokes:
  "a \<le> k \<Longrightarrow> filter is_invoke (failing_invocations d a k) = map Invoke [a..<Suc k]"
proof (induction "k - a" arbitrary: a)
  case 0
  then show ?case by (simp add: failing_invocations_same)
next
  case (Suc n)
  then have lt: "a < k" by simp
  have "filter is_invoke (failing_invocations d (Suc a) k) = map Invoke [Suc a..<Suc k]"
    using Suc.hyps(1)[of "Suc a"] Suc.hyps(2) lt by simp
  then show ?case using lt by (simp add: failing_invocations_rec upt_conv_Cons)
qed

lemma failing_invocations_waits:
  "a \<le> k \<Longrightarrow> filter (\<lambda>c. \<not> is_invoke c) (failing_invocations d a k)
     = map (\<lambda>n. Backoff (d * real n)) [a..<k]"
proof (induction "k - a" arbitrary: a)
  case 0
  then show ?case by (simp add: failing_invocations_same)
next
  case (Suc n)
  then have lt: "a < k" by simp
  have "filter (\<lambda>c. \<not> is_invoke c) (failing_invocations d (Suc a) k)
          = map (\<lambda>n. Backoff (d * real n)) [Suc a..<k]"
    using Suc.hyps(1)[of "Suc a"] Suc.hyps(2) lt by simp
  then show ?case using lt by (simp add: failing_invocations_rec upt_conv_Cons)
qed

text \<open>
  C5. An operation that fails transiently at every invocation is invoked by the Retry
  Primitive exactly \<open>max_retries + 1\<close> times, numbered 1 to \<open>max_retries + 1\<close>; before each
  re-invocation the primitive waits \<open>initial_delay * attempt_number\<close>, the number being that
  of the invocation that just failed, so the waits grow linearly; and the failure of the last
  invocation is propagated. In general, when the invocations before the \<open>k\<close>-th fail
  transiently and the \<open>k\<close>-th raises an error that is not transient, that error is propagated
  at once, the \<open>k\<close>-th invocation being the last one made; and when the \<open>k\<close>-th returns a
  value, that value is returned after \<open>k\<close> invocations.
\<close>

theorem retry_bound:
  "((\<forall>n. transient_failure transient (operation n)) \<longrightarrow>
        retry_with_backoff max_retries initial_delay transient operation
          = (operation (max_retries + 1), failing_invocations initial_delay 1 (max_retries + 1))
      \<and> transient_failure transient
          (fst (retry_with_backoff max_retries initial_delay transient operation))
      \<and> filter is_invoke (snd (retry_with_backoff max_retries initial_delay transient operation))
          = map Invoke [1..<max_retries + 2]
      \<and> length (filter is_invoke
          (snd (retry_with_backoff max_retries initial_delay transient operation)))
          = max_retries + 1
      \<and> filter (\<lambda>c. \<not> is_invoke c)
          (snd (retry_with_backoff max_retries initial_delay transient operation))
          = map (\<lambda>n. Backoff (initial_delay * real n)) [1..<max_retries + 1])
   \<and> (\<forall>k e. 1 \<le> k \<and> k \<le> max_retries + 1
          \<and> (\<forall>j. 1 \<le> j \<and> j < k \<longrightarrow> transient_failure transient (operation j))
          \<and> operation k = Inl e \<and> e \<notin> transient \<longrightarrow>
        retry_with_backoff max_retries initial_delay transient operation
          = (Inl e, failing_invocations initial_delay 1 k)
        \<and> length (filter is_invoke (failing_invocations initial_delay 1 k)) = k)
   \<and> (\<forall>k v. 1 \<le> k \<and> k \<le> max_retries + 1
          \<and> (\<forall>j. 1 \<le> j \<and> j < k \<longrightarrow> transient_failure transient (operation j))
          \<and> operation k = Inr v \<longrightarrow>
        retry_with_backoff max_retries initial_delay transient operation
          = (Inr v, failing_invocations initial_delay 1 k))"
proof (intro conjI impI allI)
  assume all: "\<forall>n. transient_failure transient (operation n)"
  have r: "retry_with_backoff max_retries initial_delay transient operation
          = (operation (max_retries + 1), failing_invocations initial_delay 1 (max_retries + 1))"
    by (rule retry_until) (use all in simp_all)
  show "retry_with_backoff max_retries initial_delay transient operation
          = (operation (max_retries + 1), failing_invocations initial_delay 1 (max_retries + 1))"
    by (rule r)
  show "transient_failure transient
          (fst (retry_with_backoff max_retries initial_delay transient operation))"
    unfolding r using all by simp
  show "filter is_invoke (snd (retry_with_backoff max_retries initial_delay transient operation))
          = map Invoke [1..<max_retries + 2]"
    unfolding r by (simp add: failing_invocations_invokes)
  show "length (filter is_invoke
          (snd (retry_with_backoff max_retries initial_delay transient operation)))
          = max_retries + 1"
    unfolding r by (simp add: failing_invocations_invokes)
  show "filter (\<lambda>c. \<not> is_invoke c)
          (snd (retry_with_backoff max_retries initial_delay transient operation))
          = map (\<lambda>n. Backoff (initial_delay * real n)) [1..<max_retries + 1]"
    unfolding r by (simp add: failing_invocations_waits)
next
  fix k e
  assume h: "1 \<le> k \<and> k \<le> max_retries + 1
          \<and> (\<forall>j. 1 \<le> j \<and> j < k \<longrightarrow> transient_failure transient (operation j))
          \<and> operation k = Inl e \<and> e \<notin> transient"
  then have "\<not> transient_failure transient (operation k)"
    by (simp add: transient_failure_def)
  then have "retry_with_backoff max_retries initial_delay transient operation
          = (operation k, failing_invocations initial_delay 1 k)"
    using h by (intro retry_until) simp_all
  then show "retry_with_backoff max_retries initial_delay transient operation
          = (Inl e, failing_invocations initial_delay 1 k)"
    using h by simp
  show "length (filter is_invoke (failing_invocations initial_delay 1 k)) = k"
    using h by (simp add: failing_invocations_invokes)
next
  fix k v
  assume h: "1 \<le> k \<and> k \<le> max_retries + 1
          \<and> (\<forall>j. 1 \<le> j \<and> j < k \<longrightarrow> transient_failure transient (operation j))
          \<and> operation k = Inr v"
  then have "\<not> transient_failure transient (operation k)"
    by (simp add: transient_failure_def)
  then have "retry_with_backoff max_retries initial_delay transient operation
          = (operation k, failing_invocations initial_delay 1 k)"
    using h by (intro retry_until) simp_all
  then show "retry_with_backoff max_retries initial_delay transient operation
          = (Inr v, failing_invocations initial_delay 1 k)"
    using h by simp
qed

theorem retry_bound_witness:
  "(\<forall>n. transient_failure {RequestException} (always_timeout n))
   \<and> retry_with_backoff 3 2 {RequestException} always_timeout
       = (Inl RequestException,
          [Invoke 1, Backoff 2, Invoke 2, Backoff 4, Invoke 3, Backoff 6, Invoke 4])
   \<and> length (filter is_invoke (snd (retry_with_backoff 3 2 {RequestException} always_timeout)))
       = 3 + 1
   \<and> transient_failure {RequestException} (key_error_at_second 1)
   \<and> key_error_at_second 2 = Inl KeyError \<and> KeyError \<notin> {RequestException}
   \<and> retry_with_backoff 3 2 {RequestException} key_error_at_second
       = (Inl KeyError, [Invoke 1, Backoff 2, Invoke 2])
   \<and> always_timeout 1 = Inl RequestException \<and> RequestException \<notin> ({} :: exception set)
   \<and> retry_with_backoff 3 2 {} always_timeout = (Inl RequestException, [Invoke 1])
   \<and> transient_failure {RequestException} (answer_at_third 1)
   \<and> transient_failure {RequestException} (answer_at_third 2)
   \<and> answer_at_third 3 = Inr 42
   \<and> retry_with_backoff 3 2 {RequestException} answer_at_third
       = (Inr 42, [Invoke 1, Backoff 2, Invoke 2, Backoff 4, Invoke 3])"
proof -
  have f4: "failing_invocations 2 1 (3 + 1)
        = [Invoke 1, Backoff 2, Invoke 2, Backoff 4, Invoke 3, Backoff 6, Invoke 4]"
    by (simp add: failing_invocations_def upt_conv_Cons)
  have f3: "failing_invocations 2 1 3 = [Invoke 1, Backoff 2, Invoke 2, Backoff 4, Invoke 3]"
    by (simp add: failing_invocations_def upt_conv_Cons)
  have f2: "failing_invocations 2 1 2 = [Invoke 1, Backoff 2, Invoke 2]"
    by (simp add: failing_invocations_def upt_conv_Cons)
  have f1: "failing_invocations 2 1 1 = [Invoke 1]"
    by (simp add: failing_invocations_def)
  have a: "\<forall>n. transient_failure {RequestException} (always_timeout n)"
    by (simp add: transient_failure_def)
  note T = retry_bound[where max_retries = 3 and initial_delay = 2
      and transient = "{RequestException}" and operation = always_timeout,
      THEN conjunct1, THEN mp, OF a]
  have t1: "retry_with_backoff 3 2 {RequestException} always_timeout
       = (Inl RequestException,
          [Invoke 1, Backoff 2, Invoke 2, Backoff 4, Invoke 3, Backoff 6, Invoke 4])"
    using T[THEN conjunct1] by (simp only: f4 always_timeout.simps)
  have t2: "length (filter is_invoke
              (snd (retry_with_backoff 3 2 {RequestException} always_timeout))) = 3 + 1"
    by (rule T[THEN conjunct2, THEN conjunct2, THEN conjunct2, THEN conjunct1])
  have k1: "transient_failure {RequestException} (key_error_at_second 1)"
    by (simp add: transient_failure_def)
  have k2: "key_error_at_second 2 = Inl KeyError" by simp
  have k3: "KeyError \<notin> {RequestException}" by simp
  have kh: "1 \<le> (2::nat) \<and> (2::nat) \<le> 3 + 1
          \<and> (\<forall>j. 1 \<le> j \<and> j < 2 \<longrightarrow> transient_failure {RequestException} (key_error_at_second j))
          \<and> key_error_at_second 2 = Inl KeyError \<and> KeyError \<notin> {RequestException}"
    by (auto simp: transient_failure_def)
  have t3: "retry_with_backoff 3 2 {RequestException} key_error_at_second
       = (Inl KeyError, [Invoke 1, Backoff 2, Invoke 2])"
    using retry_bound[where max_retries = 3 and initial_delay = 2
      and transient = "{RequestException}" and operation = key_error_at_second,
      THEN conjunct2, THEN conjunct1, THEN spec, THEN spec, THEN mp, OF kh, THEN conjunct1]
    by (simp only: f2)
  have n1: "always_timeout 1 = Inl RequestException" by simp
  have n2: "RequestException \<notin> ({} :: exception set)" by simp
  have nh: "1 \<le> (1::nat) \<and> (1::nat) \<le> 3 + 1
          \<and> (\<forall>j. 1 \<le> j \<and> j < 1 \<longrightarrow> transient_failure {} (always_timeout j))
          \<and> always_timeout 1 = Inl RequestException \<and> RequestException \<notin> {}"
    by auto
  have t4: "retry_with_backoff 3 2 {} always_timeout = (Inl RequestException, [Invoke 1])"
    using retry_bound[where max_retries = 3 and initial_delay = 2
      and transient = "{}" and operation = always_timeout,
      THEN conjunct2, THEN conjunct1, THEN spec, THEN spec, THEN mp, OF nh, THEN conjunct1]
    by (simp only: f1)
  have s1: "transient_failure {RequestException} (answer_at_third 1)"
    and s2: "transient_failure {RequestException} (answer_at_third 2)"
    by (simp_all add: transient_failure_def)
  have s3: "answer_at_third 3 = Inr 42" by simp
  have sh: "1 \<le> (3::nat) \<and> (3::nat) \<le> 3 + 1
          \<and> (\<forall>j. 1 \<le> j \<and> j < 3 \<longrightarrow> transient_failure {RequestException} (answer_at_third j))
          \<and> answer_at_third 3 = Inr 42"
    by (auto simp: transient_failure_def)
  have t5: "retry_with_backoff 3 2 {RequestException} answer_at_third
       = (Inr 42, [Invoke 1, Backoff 2, Invoke 2, Backoff 4, Invoke 3])"
    using retry_bound[where max_retries = 3 and initial_delay = 2
      and transient = "{RequestException}" and operation = answer_at_third,
      THEN conjunct2, THEN conjunct2, THEN spec, THEN spec, THEN mp, OF sh]
    by (simp only: f3)
  show ?thesis by (intro conjI a t1 t2 k1 k2 k3 t3 n1 n2 t4 s1 s2 s3 t5)
qed

section \<open>Properties of the Milwaukee scraper and of repeated calls\<close>

lemma m_grown_refl: "m_grown s s"
  by (simp add: m_grown_def m_ids_def)

lemma m_grown_trans:
  assumes "m_grown s s'" and "m_grown s' s''"
  shows "m_grown s s''"
proof -
  from assms(1) obtain n1 where n1: "m_permits s' = m_permits s @ n1"
    by (auto simp: m_grown_def prefix_def)
  from assms(2) obtain n2 where n2: "m_permits s'' = m_permits s' @ n2"
    by (auto simp: m_grown_def prefix_def)
  have a1: "distinct (m_ids n1)" "set (m_ids n1) \<inter> m_seen_permit_ids s = {}"
       "set (m_ids n1) \<subseteq> m_seen_permit_ids s'" "m_seen_permit_ids s \<subseteq> m_seen_permit_ids s'"
    using assms(1) n1 by (simp_all add: m_grown_def)
  have a2: "distinct (m_ids n2)" "set (m_ids n2) \<inter> m_seen_permit_ids s' = {}"
       "set (m_ids n2) \<subseteq> m_seen_permit_ids s''" "m_seen_permit_ids s' \<subseteq> m_seen_permit_ids s''"
    using assms(2) n2 by (simp_all add: m_grown_def)
  have d: "drop (length (m_permits s)) (m_permits s'') = n1 @ n2"
    by (simp add: n1 n2)
  have "set (m_ids n1) \<inter> set (m_ids n2) = {}" using a1(3) a2(2) by blast
  then have "distinct (m_ids (n1 @ n2))" using a1(1) a2(1) by (simp add: m_ids_def)
  moreover have "set (m_ids (n1 @ n2)) \<inter> m_seen_permit_ids s = {}"
    using a1 a2 by (auto simp: m_ids_def)
  moreover have "set (m_ids (n1 @ n2)) \<subseteq> m_seen_permit_ids s''"
    using a1 a2 by (auto simp: m_ids_def)
  moreover have "m_seen_permit_ids s \<subseteq> m_seen_permit_ids s''" using a1 a2 by auto
  moreover have "prefix (m_permits s) (m_permits s'')" by (simp add: n1 n2)
  ultimately show ?thesis unfolding m_grown_def d by simp
qed

lemma milwaukee_make_permit_id:
  "milwaukee_make_permit B pid r = Inr p \<Longrightarrow> m_permit_number p = pid"
  by (auto simp: milwaukee_make_permit_def split: sum.splits)

lemma m_grown_add_record: "m_grown s (snd (milwaukee_add_record B s r))"
  by (auto simp: milwaukee_add_record_def Let_def m_grown_def m_ids_def
      milwaukee_make_permit_id split: sum.splits)

lemma m_grown_process_batch: "m_grown s (snd (milwaukee_process_batch B s data))"
proof (induction data arbitrary: s)
  case Nil
  show ?case by (simp add: m_grown_refl)
next
  case (Cons r data)
  obtain e s1 where a: "milwaukee_add_record B s r = (e, s1)"
    by (cases "milwaukee_add_record B s r")
  have g1: "m_grown s s1" using m_grown_add_record[of s B r] a by simp
  show ?case
  proof (cases e)
    case None
    have "m_grown s1 (snd (milwaukee_process_batch B s1 data))" by (rule Cons.IH)
    with g1 have "m_grown s (snd (milwaukee_process_batch B s1 data))" by (rule m_grown_trans)
    then show ?thesis using a None by simp
  next
    case (Some err)
    then show ?thesis using a g1 by simp
  qed
qed

lemma m_grown_loop:
  assumes "milwaukee_loop B fetch endpoint max_permits k offset s = Some y"
  shows "m_grown s (snd (snd y))"
proof (rule milwaukee_loop.raw_induct
    [where P = "\<lambda>B fetch endpoint max_permits k offset s y. m_grown s (snd (snd y))",
     OF _ assms])
  fix loop :: "'a builtins \<Rightarrow> (string \<Rightarrow> nat \<Rightarrow> int \<Rightarrow> fetch_result) \<Rightarrow> string \<Rightarrow> int \<Rightarrow> nat
      \<Rightarrow> int \<Rightarrow> milwaukee_scraper \<Rightarrow> (bool \<times> nat \<times> milwaukee_scraper) option"
    and B fetch endpoint max_permits k offset s y
  assume IH: "\<And>B fetch endpoint max_permits k offset s y.
      loop B fetch endpoint max_permits k offset s = Some y \<Longrightarrow> m_grown s (snd (snd y))"
  assume eq: "(if int (length (m_permits s)) < max_permits
      then case fetch endpoint k offset of
           Data data \<Rightarrow>
             if data = [] then Some (False, k + 1, s)
             else (case milwaukee_process_batch B s data of
                  (Some e, s') \<Rightarrow> Some (True, k + 1, s')
                | (None, s') \<Rightarrow>
                    if length data < 1000 then Some (False, k + 1, s')
                    else loop B fetch endpoint max_permits (k + 1) (offset + 1000) s')
           | Request_exception \<Rightarrow> Some (True, k + 1, s)
           | Other_exception \<Rightarrow> Some (True, k + 1, s)
      else Some (False, k, s)) = Some y"
  show "m_grown s (snd (snd y))"
  proof (cases "int (length (m_permits s)) < max_permits")
    case False
    then have "snd (snd y) = s" using eq by auto
    then show ?thesis by (simp add: m_grown_refl)
  next
    case True
    show ?thesis
    proof (cases "fetch endpoint k offset")
      case (Data data)
      show ?thesis
      proof (cases "data = []")
        case True
        then have "snd (snd y) = s"
          using eq \<open>int (length (m_permits s)) < max_permits\<close> Data by auto
        then show ?thesis by (simp add: m_grown_refl)
      next
        case False
        obtain e s1 where b: "milwaukee_process_batch B s data = (e, s1)"
          by (cases "milwaukee_process_batch B s data")
        have g1: "m_grown s s1" using m_grown_process_batch[of s B data] b by simp
        show ?thesis
        proof (cases "e = None \<and> \<not> length data < 1000")
          case True
          then have "loop B fetch endpoint max_permits (k + 1) (offset + 1000) s1 = Some y"
            using eq \<open>int (length (m_permits s)) < max_permits\<close> Data False b by simp
          then have "m_grown s1 (snd (snd y))" by (rule IH)
          with g1 show ?thesis by (rule m_grown_trans)
        next
          case F2: False
          then have "snd (snd y) = s1"
            using eq \<open>int (length (m_permits s)) < max_permits\<close> Data False b
            by (cases e) (auto split: if_splits)
          then show ?thesis using g1 by simp
        qed
      qed
    next
      case Request_exception
      then have "snd (snd y) = s" using eq True by auto
      then show ?thesis by (simp add: m_grown_refl)
    next
      case Other_exception
      then have "snd (snd y) = s" using eq True by auto
      then show ?thesis by (simp add: m_grown_refl)
    qed
  qed
qed

lemma m_grown_endpoints:
  "milwaukee_endpoints B fetch max_permits endpoints k s = Some s' \<Longrightarrow> m_grown s s'"
proof (induction endpoints arbitrary: k s)
  case Nil
  then show ?case by (simp add: m_grown_refl)
next
  case (Cons endpoint rest)
  from Cons.prems obtain raised k1 s1 where
    l: "milwaukee_loop B fetch endpoint max_permits k 0 s = Some (raised, k1, s1)"
    by (auto split: option.splits)
  have g1: "m_grown s s1" using m_grown_loop[OF l] by simp
  show ?case
  proof (cases "\<not> raised \<and> m_permits s1 \<noteq> []")
    case True
    then have "s' = s1" using Cons.prems l by simp
    then show ?thesis using g1 by simp
  next
    case False
    then have "milwaukee_endpoints B fetch max_permits rest k1 s1 = Some s'"
      using Cons.prems l by auto
    then have "m_grown s1 s'" by (rule Cons.IH)
    with g1 show ?thesis by (rule m_grown_trans)
  qed
qed

lemma m_grown_get_permits:
  assumes "get_permits B fetch max_permits s = Some (r, s')"
  shows "m_grown s s' \<and> r = m_permits s'"
proof -
  from assms have e: "milwaukee_endpoints B fetch max_permits [milwaukee_url] 0 s = Some s'"
    and r: "r = m_permits s'"
    by (auto simp: get_permits_def)
  from e have "m_grown s s'" by (rule m_grown_endpoints)
  with r show ?thesis by simp
qed

lemma m_grown_consistent:
  assumes "m_grown s s'" and "m_ids_consistent s"
  shows "m_ids_consistent s'"
proof -
  from assms(1) obtain n where n: "m_permits s' = m_permits s @ n"
    by (auto simp: m_grown_def prefix_def)
  show ?thesis using assms unfolding m_grown_def m_ids_consistent_def n
    by (auto simp: m_ids_def)
qed

lemma milwaukee_loop_returns:
  "ends_batching (fetch endpoint (k + n) (offset + 1000 * int n)) \<Longrightarrow>
   milwaukee_loop B fetch endpoint max_permits k offset s \<noteq> None"
proof (induction n arbitrary: k offset s)
  case 0
  then have e: "ends_batching (fetch endpoint k offset)" by simp
  show ?case
    by (subst milwaukee_loop.simps)
       (use e in \<open>auto split: fetch_result.splits prod.splits option.splits\<close>)
next
  case (Suc n)
  have "ends_batching (fetch endpoint ((k + 1) + n) ((offset + 1000) + 1000 * int n))"
    using Suc.prems by (simp add: algebra_simps)
  then have IH: "milwaukee_loop B fetch endpoint max_permits (k + 1) (offset + 1000) s1 \<noteq> None"
    for s1 by (rule Suc.IH)
  show ?case
    by (subst milwaukee_loop.simps)
       (use IH in \<open>auto split: fetch_result.splits prod.splits option.splits\<close>)
qed

lemma get_permits_returns:
  "ends_batching (fetch milwaukee_url n (1000 * int n)) \<Longrightarrow>
   get_permits B fetch max_permits s \<noteq> None"
  using milwaukee_loop_returns[of fetch milwaukee_url 0 n 0 B max_permits s]
  by (auto simp: get_permits_def split: option.splits)

text \<open>
  C10. The permit list and the seen set of a scraper object persist between calls.
  Whatever state \<open>s\<close> a Charlotte scraper is in, a call of \<open>scrape_permits\<close> returns a list
  that starts with the permits \<open>s\<close> already held (so never fewer), keeps every seen
  identifier, and adds only permits whose identifiers were not seen in \<open>s\<close>; identifiers
  that were pairwise different and seen in \<open>s\<close> still are afterwards. So a second call on
  the object of a first call returns a list that extends the first call's result and has
  no identifier twice. The same holds for \<open>get_permits\<close> of the Milwaukee scraper whenever
  it returns, and it returns whenever the source at some point answers with an exception or
  with a batch of fewer than 1000 records.
\<close>

theorem scraper_state_accumulates:
  "prefix (permits s) (fst (scrape_permits B fetch max_permits s))
   \<and> length (permits s) \<le> length (fst (scrape_permits B fetch max_permits s))
   \<and> seen_permit_ids s \<subseteq> seen_permit_ids (snd (scrape_permits B fetch max_permits s))
   \<and> set (ids (drop (length (permits s)) (fst (scrape_permits B fetch max_permits s))))
        \<inter> seen_permit_ids s = {}
   \<and> (ids_consistent s \<longrightarrow> ids_consistent (snd (scrape_permits B fetch max_permits s)))
   \<and> prefix (fst (scrape_permits B fetch1 max1 new_scraper))
        (fst (scrape_permits B fetch2 max2 (snd (scrape_permits B fetch1 max1 new_scraper))))
   \<and> distinct (ids (fst (scrape_permits B fetch2 max2
        (snd (scrape_permits B fetch1 max1 new_scraper)))))
   \<and> (get_permits B mfetch max_permits ms = Some (r, ms') \<longrightarrow>
        r = m_permits ms' \<and> prefix (m_permits ms) r \<and> length (m_permits ms) \<le> length r
        \<and> m_seen_permit_ids ms \<subseteq> m_seen_permit_ids ms'
        \<and> set (m_ids (drop (length (m_permits ms)) r)) \<inter> m_seen_permit_ids ms = {}
        \<and> (m_ids_consistent ms \<longrightarrow> m_ids_consistent ms' \<and> distinct (m_ids r)))
   \<and> ((\<exists>n. ends_batching (mfetch milwaukee_url n (1000 * int n))) \<longrightarrow>
        get_permits B mfetch max_permits ms \<noteq> None)"
proof -
  let ?s' = "snd (scrape_permits B fetch max_permits s)"
  have fs: "fst (scrape_permits B f m t) = permits (snd (scrape_permits B f m t))" for f m t
    by (simp add: scrape_permits_def Let_def)
  have g: "grown s ?s'" by (rule grown_scrape_permits)
  have a: "prefix (permits s) (fst (scrape_permits B fetch max_permits s))"
    using g by (simp add: fs grown_def)
  have b: "length (permits s) \<le> length (fst (scrape_permits B fetch max_permits s))"
    using a by (rule prefix_length_le)
  have c: "seen_permit_ids s \<subseteq> seen_permit_ids ?s'" using g by (auto simp: grown_def)
  have d: "set (ids (drop (length (permits s)) (fst (scrape_permits B fetch max_permits s))))
        \<inter> seen_permit_ids s = {}"
    using g by (simp add: fs grown_def)
  have e: "ids_consistent ?s'" if "ids_consistent s" using g that by (rule grown_consistent)
  let ?s1 = "snd (scrape_permits B fetch1 max1 new_scraper)"
  let ?s2 = "snd (scrape_permits B fetch2 max2 ?s1)"
  have g12: "grown ?s1 ?s2" by (rule grown_scrape_permits)
  have f: "prefix (fst (scrape_permits B fetch1 max1 new_scraper))
        (fst (scrape_permits B fetch2 max2 ?s1))"
    using g12 by (simp add: fs grown_def)
  have "ids_consistent ?s1"
    using grown_scrape_permits new_scraper_consistent by (rule grown_consistent)
  with g12 have "ids_consistent ?s2" by (rule grown_consistent)
  then have h: "distinct (ids (fst (scrape_permits B fetch2 max2 ?s1)))"
    by (simp add: fs ids_consistent_def)
  have m: "r = m_permits ms' \<and> prefix (m_permits ms) r \<and> length (m_permits ms) \<le> length r
        \<and> m_seen_permit_ids ms \<subseteq> m_seen_permit_ids ms'
        \<and> set (m_ids (drop (length (m_permits ms)) r)) \<inter> m_seen_permit_ids ms = {}
        \<and> (m_ids_consistent ms \<longrightarrow> m_ids_consistent ms' \<and> distinct (m_ids r))"
    if "get_permits B mfetch max_permits ms = Some (r, ms')"
  proof -
    from m_grown_get_permits[OF that] have mg: "m_grown ms ms'" and r: "r = m_permits ms'"
      by simp_all
    have p: "prefix (m_permits ms) r" using mg r by (simp add: m_grown_def)
    have c': "m_ids_consistent ms' \<and> distinct (m_ids r)" if "m_ids_consistent ms"
      using m_grown_consistent[OF mg that] r by (simp add: m_ids_consistent_def)
    show ?thesis using p prefix_length_le[OF p] mg r c' by (simp add: m_grown_def)
  qed
  have t: "get_permits B mfetch max_permits ms \<noteq> None"
    if "\<exists>n. ends_batching (mfetch milwaukee_url n (1000 * int n))"
    using that get_permits_returns by blast
  show ?thesis using a b c d e f h m t by blast
qed

lemma demo_first_call:
  "scrape_loop demo_builtins one_short_batch 5000 0 0 0 0 new_scraper
     = process_batch demo_builtins new_scraper [record_a, record_b, record_a]"
  by (subst scrape_loop.simps) (simp add: Let_def)

lemma demo_second_call:
  "scrape_loop demo_builtins another_short_batch 5000 0 0 0 0 s
     = process_batch demo_builtins s [record_b, Map.empty]"
  by (subst scrape_loop.simps) (simp add: Let_def)

theorem scraper_state_accumulates_witness:
  "ids_consistent new_scraper
   \<and> ids (fst (scrape_permits demo_builtins one_short_batch 5000 new_scraper))
       = [JStr ''A-1'', JStr ''B-2'']
   \<and> ids (fst (scrape_permits demo_builtins another_short_batch 5000
        (snd (scrape_permits demo_builtins one_short_batch 5000 new_scraper))))
       = [JStr ''A-1'', JStr ''B-2'', JStr '''']
   \<and> prefix (fst (scrape_permits demo_builtins one_short_batch 5000 new_scraper))
        (fst (scrape_permits demo_builtins another_short_batch 5000
          (snd (scrape_permits demo_builtins one_short_batch 5000 new_scraper))))
   \<and> ids_consistent (snd (scrape_permits demo_builtins one_short_batch 5000 new_scraper))
   \<and> ends_batching (milwaukee_first milwaukee_url 0 (1000 * int 0))
   \<and> ends_batching (milwaukee_second milwaukee_url 0 (1000 * int 0))
   \<and> m_ids_consistent new_milwaukee_scraper
   \<and> (\<exists>r1 s1 r2 s2.
         get_permits demo_builtins milwaukee_first 5000 new_milwaukee_scraper = Some (r1, s1)
         \<and> get_permits demo_builtins milwaukee_second 5000 s1 = Some (r2, s2)
         \<and> m_ids r1 = [JStr ''A-1'', JStr ''C-3'']
         \<and> prefix r1 r2 \<and> distinct (m_ids r2))"
proof -
  note T = scraper_state_accumulates[of new_scraper demo_builtins one_short_batch 5000
      one_short_batch 5000 another_short_batch 5000]
  have h1: "ids_consistent new_scraper" by (rule new_scraper_consistent)
  have h2: "ends_batching (milwaukee_first milwaukee_url 0 (1000 * int 0))" by simp
  have h3: "ends_batching (milwaukee_second milwaukee_url 0 (1000 * int 0))" by simp
  have h4: "m_ids_consistent new_milwaukee_scraper"
    by (simp add: m_ids_consistent_def new_milwaukee_scraper_def m_ids_def)
  have p: "prefix (fst (scrape_permits demo_builtins one_short_batch 5000 new_scraper))
        (fst (scrape_permits demo_builtins another_short_batch 5000
          (snd (scrape_permits demo_builtins one_short_batch 5000 new_scraper))))"
    using T by blast
  have c: "ids_consistent (snd (scrape_permits demo_builtins one_short_batch 5000 new_scraper))"
    using T h1 by blast
  have e1: "ids (fst (scrape_permits demo_builtins one_short_batch 5000 new_scraper))
       = [JStr ''A-1'', JStr ''B-2'']"
    unfolding scrape_permits_def demo_first_call
    by (simp add: Let_def process_batch_def add_record_def
        permit_id_of_def py_or_def get_def record_a_def record_b_def new_scraper_def ids_def)
  have e2: "ids (fst (scrape_permits demo_builtins another_short_batch 5000
        (snd (scrape_permits demo_builtins one_short_batch 5000 new_scraper))))
       = [JStr ''A-1'', JStr ''B-2'', JStr '''']"
    unfolding scrape_permits_def demo_first_call demo_second_call
    by (simp add: Let_def process_batch_def
        add_record_def permit_id_of_def py_or_def get_def get_default_def record_a_def
        record_b_def new_scraper_def ids_def)
  have "get_permits demo_builtins milwaukee_first 5000 new_milwaukee_scraper \<noteq> None"
    using scraper_state_accumulates[of new_scraper demo_builtins one_short_batch 5000
      one_short_batch 5000 another_short_batch 5000 milwaukee_first new_milwaukee_scraper]
      h2 by blast
  then obtain r1 s1 where
    g1: "get_permits demo_builtins milwaukee_first 5000 new_milwaukee_scraper = Some (r1, s1)"
    by auto
  have m1: "r1 = m_permits s1 \<and> m_ids_consistent s1"
    using scraper_state_accumulates[of new_scraper demo_builtins one_short_batch 5000
      one_short_batch 5000 another_short_batch 5000 milwaukee_first new_milwaukee_scraper
      r1 s1] g1 h4 by blast
  have "get_permits demo_builtins milwaukee_second 5000 s1 \<noteq> None"
    using scraper_state_accumulates[of new_scraper demo_builtins one_short_batch 5000
      one_short_batch 5000 another_short_batch 5000 milwaukee_second s1] h3 by blast
  then obtain r2 s2 where
    g2: "get_permits demo_builtins milwaukee_second 5000 s1 = Some (r2, s2)"
    by auto
  have m2: "prefix (m_permits s1) r2 \<and> distinct (m_ids r2)"
    using scraper_state_accumulates[of new_scraper demo_builtins one_short_batch 5000
      one_short_batch 5000 another_short_batch 5000 milwaukee_second s1 r2 s2] g2 m1
    by blast
  have v1: "m_ids r1 = [JStr ''A-1'', JStr ''C-3'']"
    using g1
    by (subst (asm) get_permits_def, subst (asm) milwaukee_endpoints.simps,
        subst (asm) milwaukee_loop.simps)
       (auto simp: new_milwaukee_scraper_def milwaukee_add_record_def milwaukee_make_permit_def
          milwaukee_date_def get_def get_default_def record_a_def record_c_def Let_def
          m_ids_def split: if_splits)
  have "\<exists>r1 s1 r2 s2.
         get_permits demo_builtins milwaukee_first 5000 new_milwaukee_scraper = Some (r1, s1)
         \<and> get_permits demo_builtins milwaukee_second 5000 s1 = Some (r2, s2)
         \<and> m_ids r1 = [JStr ''A-1'', JStr ''C-3'']
         \<and> prefix r1 r2 \<and> distinct (m_ids r2)"
    using g1 g2 v1 m1 m2 by blast
  then show ?thesis using h1 h2 h3 h4 p c e1 e2 by (intro conjI)
qed

end
